theory Spec2Isabelle
  imports Main "HOL-Library.AList" "HOL-Library.Char_ord" "HOL-Library.List_Lexorder"
    "HOL-Library.Multiset"
begin

section \<open>JavaScript values and strings\<close>

text \<open>
  The server is JavaScript. A string is modelled as the list of its code units, and the
  model covers the code units below U+0100 (one \<open>char\<close> each), where \<open>toLowerCase\<close>,
  \<open>trim\<close> and the default comparison of strings all work unit by unit.
  A property that is not there reads as \<open>undefined\<close>: \<open>None\<close> for the fields of a record.
\<close>

datatype error = TypeError

datatype jsval = JUndefined | JNull | JBool bool | JNum int | JStr string

type_synonym 'v obj = "(string \<times> 'v) list"

text \<open>\<open>data[key]\<close>: the value of a property, \<open>undefined\<close> when the object has none.\<close>

definition get :: "jsval obj \<Rightarrow> string \<Rightarrow> jsval" where
  "get data key = (case map_of data key of None \<Rightarrow> JUndefined | Some v \<Rightarrow> v)"

text \<open>\<open>!v\<close>: the values that count as false.\<close>

fun falsy :: "jsval \<Rightarrow> bool" where
  "falsy JUndefined = True"
| "falsy JNull = True"
| "falsy (JBool b) = (\<not> b)"
| "falsy (JNum n) = (n = 0)"
| "falsy (JStr s) = (s = [])"

text \<open>
  White space and line terminators below U+0100, as \<open>String.prototype.trim\<close> and
  \<open>parseInt\<close> strip them: TAB, LF, VT, FF, CR, SPACE and NO-BREAK SPACE.
\<close>

definition isWhiteSpace :: "char \<Rightarrow> bool" where
  "isWhiteSpace c = ((of_char c :: nat) \<in> {9, 10, 11, 12, 13, 32, 160})"

definition trim :: "string \<Rightarrow> string" where
  "trim s = rev (dropWhile isWhiteSpace (rev (dropWhile isWhiteSpace s)))"

text \<open>
  \<open>toLowerCase\<close> below U+0100: A to Z, and U+00C0 to U+00DE but the multiplication
  sign U+00D7, move up by 32; every other code unit stays.
\<close>

definition lower_char :: "char \<Rightarrow> char" where
  "lower_char c =
     (let n = (of_char c :: nat)
      in if (65 \<le> n \<and> n \<le> 90) \<or> (192 \<le> n \<and> n \<le> 222 \<and> n \<noteq> 215)
         then char_of (n + 32) else c)"

definition toLowerCase :: "string \<Rightarrow> string" where
  "toLowerCase s = map lower_char s"

text \<open>\<open>s.includes(t)\<close>: \<open>t\<close> occurs in \<open>s\<close> as a contiguous run.\<close>

fun str_includes :: "string \<Rightarrow> string \<Rightarrow> bool" where
  "str_includes [] t = (t = [])"
| "str_includes (c # s) t = (take (length t) (c # s) = t \<or> str_includes s t)"

section \<open>Record Normalizer: \<open>sanitizeData\<close>\<close>

text \<open>
  The value computed for one property in the loop of \<open>sanitizeData\<close>:
  \<^verbatim>\<open>(!data[key] || data[key] === '0') ? '' : data[key].trim()\<close>.
  A value that is neither false nor a string has no \<open>trim\<close>: a TypeError.
\<close>

definition sanitizeValue :: "jsval \<Rightarrow> error + string" where
  "sanitizeValue v =
     (if falsy v \<or> v = JStr ''0'' then Inr []
      else (case v of JStr s \<Rightarrow> Inr (trim s) | _ \<Rightarrow> Inl TypeError))"

text \<open>
  \<^verbatim>\<open>for (const key in data) { ...; result[key] = value; }\<close>: the loop over the keys,
  with \<open>result\<close> passed along; the first exception ends it.
\<close>

fun sanitize_loop :: "jsval obj \<Rightarrow> string list \<Rightarrow> string obj \<Rightarrow> error + string obj" where
  "sanitize_loop data [] result = Inr result"
| "sanitize_loop data (key # keys) result =
     (case sanitizeValue (get data key) of
        Inl e \<Rightarrow> Inl e
      | Inr v \<Rightarrow> sanitize_loop data keys (AList.update key v result))"

definition sanitizeData :: "jsval obj \<Rightarrow> error + string obj" where
  "sanitizeData data = sanitize_loop data (map fst data) []"

text \<open>
  The raw values a row of the CSV parser can hold, in the words of the specification: a
  text, or nothing (missing, \<open>null\<close>).
\<close>

fun raw_text :: "jsval \<Rightarrow> bool" where
  "raw_text (JStr s) = True"
| "raw_text JUndefined = True"
| "raw_text JNull = True"
| "raw_text _ = False"

text \<open>
  The Normalizer in the words of the specification: a value that is false or exactly
  \<open>"0"\<close> becomes \<open>""\<close>, every other value is trimmed.
\<close>

fun normalized :: "jsval \<Rightarrow> string" where
  "normalized (JStr s) = (if s = [] \<or> s = ''0'' then [] else trim s)"
| "normalized _ = []"

section \<open>Hospital records\<close>

text \<open>
  The object built for every row in \<open>loadHospitalData\<close>. Every field is the sanitized
  text of one column, or \<open>undefined\<close> (\<open>None\<close>) when the row has no such column.
\<close>

record hospital =
  id' :: "string option"
  name :: "string option"
  coordinates :: "string option"
  location :: "string option"
  category :: "string option"
  careType :: "string option"
  medicine :: "string option"
  address :: "string option"
  state :: "string option"
  district :: "string option"
  subdistrict :: "string option"
  pincode :: "string option"
  telephone :: "string option"
  mobile :: "string option"
  emergency :: "string option"
  ambulance :: "string option"
  bloodbank :: "string option"
  email :: "string option"
  website :: "string option"
  specialties :: "string option"
  facilities :: "string option"
  totalBeds :: "string option"
  privateWards :: "string option"
  doctors :: "string option"

definition hospital_of :: "string obj \<Rightarrow> hospital" where
  "hospital_of rawHospital =
     \<lparr> id' = map_of rawHospital ''Sr_No'',
       name = map_of rawHospital ''Hospital_Name'',
       coordinates = map_of rawHospital ''Location_Coordinates'',
       location = map_of rawHospital ''Location'',
       category = map_of rawHospital ''Hospital_Category'',
       careType = map_of rawHospital ''Hospital_Care_Type'',
       medicine = map_of rawHospital ''Discipline_Systems_of_Medicine'',
       address = map_of rawHospital ''Address_Original_First_Line'',
       state = map_of rawHospital ''State'',
       district = map_of rawHospital ''District'',
       subdistrict = map_of rawHospital ''Subdistrict'',
       pincode = map_of rawHospital ''Pincode'',
       telephone = map_of rawHospital ''Telephone'',
       mobile = map_of rawHospital ''Mobile_Number'',
       emergency = map_of rawHospital ''Emergency_Num'',
       ambulance = map_of rawHospital ''Ambulance_Phone_No'',
       bloodbank = map_of rawHospital ''Bloodbank_Phone_No'',
       email = map_of rawHospital ''Hospital_Primary_Email_Id'',
       website = map_of rawHospital ''Website'',
       specialties = map_of rawHospital ''Specialties'',
       facilities = map_of rawHospital ''Facilities'',
       totalBeds = map_of rawHospital ''Total_Num_Beds'',
       privateWards = map_of rawHospital ''Number_Private_Wards'',
       doctors = map_of rawHospital ''Number_Doctor'' \<rparr>"

section \<open>Qualification Classifier: the condition of \<open>loadHospitalData\<close>\<close>

text \<open>A field used as a condition: true for a text that is not empty.\<close>

definition truthy :: "string option \<Rightarrow> bool" where
  "truthy v = (case v of None \<Rightarrow> False | Some s \<Rightarrow> s \<noteq> [])"

text \<open>
  \<^verbatim>\<open>v.toLowerCase().includes(t)\<close>: reading \<open>toLowerCase\<close> of \<open>undefined\<close> is a
  TypeError.
\<close>

definition lower_includes :: "string option \<Rightarrow> string \<Rightarrow> error + bool" where
  "lower_includes v t =
     (case v of None \<Rightarrow> Inl TypeError | Some s \<Rightarrow> Inr (str_includes (toLowerCase s) t))"

text \<open>\<^verbatim>\<open>!v.toLowerCase().includes(t)\<close>\<close>

definition lower_excludes :: "string option \<Rightarrow> string \<Rightarrow> error + bool" where
  "lower_excludes v t =
     (case lower_includes v t of Inl e \<Rightarrow> Inl e | Inr b \<Rightarrow> Inr (\<not> b))"

text \<open>
  \<^verbatim>\<open>v?.toLowerCase().includes(t)\<close>: the optional chain gives \<open>undefined\<close>, which
  counts as false, when \<open>v\<close> is \<open>undefined\<close>.
\<close>

definition opt_lower_includes :: "string option \<Rightarrow> string \<Rightarrow> bool" where
  "opt_lower_includes v t =
     (case v of None \<Rightarrow> False | Some s \<Rightarrow> str_includes (toLowerCase s) t)"

text \<open>
  A chain \<^verbatim>\<open>c1 && c2 && ...\<close> used as a condition: the operands are evaluated from
  the left, the first false one decides, and an exception in an operand that is reached
  leaves the chain.
\<close>

fun and_chain :: "(error + bool) list \<Rightarrow> error + bool" where
  "and_chain [] = Inr True"
| "and_chain (Inl e # cs) = Inl e"
| "and_chain (Inr b # cs) = (if b then and_chain cs else Inr False)"

text \<open>
  The value of a digit or letter as \<open>parseInt\<close> reads it (\<open>36\<close> for every other code
  unit, which no radix accepts).
\<close>

definition digit_val :: "char \<Rightarrow> nat" where
  "digit_val c =
     (let n = (of_char c :: nat)
      in if 48 \<le> n \<and> n \<le> 57 then n - 48
         else if 97 \<le> n \<and> n \<le> 122 then n - 87
         else if 65 \<le> n \<and> n \<le> 90 then n - 55
         else 36)"

text \<open>
  \<open>parseInt(str)\<close> with no radix: leading white space is dropped, then a sign, then
  \<open>0x\<close> or \<open>0X\<close> selects radix 16; the longest run of digits is read, and there being
  none gives \<open>NaN\<close> (\<open>None\<close>). The result is the integer read; the double that
  JavaScript rounds it to compares with 10 and with 2 as the integer does.
\<close>

definition parseInt :: "string \<Rightarrow> int option" where
  "parseInt str =
     (let s = dropWhile isWhiteSpace str;
          sign = (if take 1 s = ''-'' then - 1 else 1 :: int);
          s1 = (if take 1 s = ''+'' \<or> take 1 s = ''-'' then drop 1 s else s);
          hex = (take 2 s1 = ''0x'' \<or> take 2 s1 = ''0X'');
          r = (if hex then 16 else 10 :: nat);
          s2 = (if hex then drop 2 s1 else s1);
          z = takeWhile (\<lambda>c. digit_val c < r) s2
      in if z = [] then None
         else Some (sign * int (foldl (\<lambda>a c. a * r + digit_val c) 0 z)))"

text \<open>\<^verbatim>\<open>v && parseInt(v) > n\<close>; a comparison with \<open>NaN\<close> is false.\<close>

definition parses_above :: "string option \<Rightarrow> int \<Rightarrow> bool" where
  "parses_above v n =
     (truthy v \<and> (case v of None \<Rightarrow> False
                   | Some s \<Rightarrow> (case parseInt s of None \<Rightarrow> False | Some m \<Rightarrow> m > n)))"

text \<open>
  The operands of the condition on the names and texts of the record (lines 93 to 117 of
  \<open>server.js\<close>), in the order of the source.
\<close>

definition text_checks :: "hospital \<Rightarrow> (error + bool) list" where
  "text_checks h =
     [ Inr (truthy (name h)),
       Inr (truthy (medicine h)),
       lower_includes (medicine h) ''allopathy'',
       lower_excludes (category h) ''dispensary'',
       lower_excludes (category h) ''nursing home'',
       lower_excludes (name h) ''children'',
       lower_excludes (name h) ''child'',
       Inr (\<not> opt_lower_includes (specialties h) ''pediatric''),
       Inr (\<not> opt_lower_includes (specialties h) ''children''),
       lower_excludes (name h) ''nursing home'',
       lower_excludes (name h) ''nursing'',
       lower_excludes (name h) ''nursing home'',
       lower_excludes (name h) ''nursinghome'',
       lower_excludes (name h) ''nursing-home'',
       lower_excludes (name h) ''nursing_home'',
       lower_excludes (category h) ''nursing'',
       Inr (\<not> opt_lower_includes (careType h) ''nursing''),
       lower_excludes (name h) ''clinic'',
       lower_excludes (name h) ''dispensary'',
       lower_excludes (name h) ''health center'',
       lower_excludes (name h) ''health centre'',
       lower_excludes (name h) ''healthcare center'',
       lower_excludes (name h) ''healthcare centre'' ]"

text \<open>The two operands on the sizes (lines 119 and 120): beds and doctors.\<close>

definition size_checks :: "hospital \<Rightarrow> (error + bool) list" where
  "size_checks h =
     [ Inr (parses_above (totalBeds h) 10),
       Inr (parses_above (doctors h) 2) ]"

text \<open>
  The whole condition: \<open>Inr True\<close> when the record is accepted, \<open>Inr False\<close> when it
  is not, \<open>Inl\<close> when evaluating the condition throws.
\<close>

definition qualifies :: "hospital \<Rightarrow> error + bool" where
  "qualifies h = and_chain (text_checks h @ size_checks h)"

text \<open>
  What the body of the \<open>try\<close> block decides for one row, before it changes anything:
  the record to add (\<open>Some\<close>), nothing to add (\<open>None\<close>), or the exception thrown.
\<close>

definition classify_row :: "jsval obj \<Rightarrow> error + hospital option" where
  "classify_row data =
     (case sanitizeData data of
        Inl e \<Rightarrow> Inl e
      | Inr rawHospital \<Rightarrow>
          (let hospital = hospital_of rawHospital
           in case qualifies hospital of
                Inl e \<Rightarrow> Inl e
              | Inr ok \<Rightarrow> Inr (if ok then Some hospital else None)))"

section \<open>The state of the server\<close>

text \<open>
  The module keeps three variables: \<open>hospitals\<close>, which refers to an array of records,
  and the Sets \<open>districts\<close> and \<open>states\<close>. Arrays are objects that \<open>push\<close> and
  \<open>sort\<close> change in place, so the arrays live in a heap, \<open>hospitals\<close> holds an
  address, and \<open>brk\<close> is the next free address. A Set of texts is the list of its
  elements in the order they were added.
\<close>

record server =
  heap :: "nat \<Rightarrow> hospital list"
  brk :: nat
  hospitals :: nat
  districts :: "string list"
  states :: "string list"

text \<open>The state when the module is loaded: \<open>hospitals = []\<close> and two empty Sets.\<close>

definition init_server :: server where
  "init_server =
     \<lparr> heap = (\<lambda>a. []), brk = 1, hospitals = 0, districts = [], states = [] \<rparr>"

text \<open>A new array object (an array literal, or the result of \<open>filter\<close>).\<close>

definition new_array :: "hospital list \<Rightarrow> server \<Rightarrow> nat \<times> server" where
  "new_array xs st = (brk st, st\<lparr> heap := (heap st)(brk st := xs), brk := Suc (brk st) \<rparr>)"

definition array_push :: "nat \<Rightarrow> hospital \<Rightarrow> server \<Rightarrow> server" where
  "array_push a h st = st\<lparr> heap := (heap st)(a := heap st a @ [h]) \<rparr>"

text \<open>\<open>arr.filter(p)\<close> leaves \<open>arr\<close> alone and returns a new array.\<close>

definition array_filter :: "(hospital \<Rightarrow> bool) \<Rightarrow> nat \<Rightarrow> server \<Rightarrow> nat \<times> server" where
  "array_filter p a st = new_array (filter p (heap st a)) st"

text \<open>\<open>set.add(x)\<close>\<close>

definition set_add :: "string \<Rightarrow> string list \<Rightarrow> string list" where
  "set_add x s = (if x \<in> set s then s else s @ [x])"

text \<open>The states a server can be in: \<open>hospitals\<close> refers to an allocated array.\<close>

definition wf_server :: "server \<Rightarrow> bool" where
  "wf_server st = (hospitals st < brk st)"

text \<open>
  What a request may do to the state: allocate arrays, and change only arrays it has
  allocated. The three variables and every array there was stay as they were.
\<close>

definition frame :: "server \<Rightarrow> server \<Rightarrow> bool" where
  "frame st st' =
     (hospitals st' = hospitals st \<and> districts st' = districts st \<and> states st' = states st \<and>
      brk st \<le> brk st' \<and> (\<forall>a < brk st. heap st' a = heap st a))"

section \<open>Ingestion: \<open>loadHospitalData\<close>\<close>

text \<open>
  The handler of the \<open>data\<close> event, for the row \<open>data\<close>; \<open>results\<close> is the address of
  the local array. The \<open>try\<close> block throws only while it sanitizes the row and evaluates
  the condition, before it has changed anything, and the \<open>catch\<close> block only logs: the
  state is then as it was.
\<close>

definition on_data :: "nat \<Rightarrow> server \<Rightarrow> jsval obj \<Rightarrow> server" where
  "on_data results st data =
     (case classify_row data of
        Inl e \<Rightarrow> st
      | Inr None \<Rightarrow> st
      | Inr (Some hospital) \<Rightarrow>
          (let st1 = array_push results hospital st;
               st2 = (case district hospital of
                        None \<Rightarrow> st1
                      | Some d \<Rightarrow>
                          if d \<noteq> [] \<and> trim d \<noteq> []
                          then st1\<lparr> districts := set_add (trim d) (districts st1) \<rparr>
                          else st1);
               st3 = (case state hospital of
                        None \<Rightarrow> st2
                      | Some s \<Rightarrow>
                          if s \<noteq> [] \<and> trim s \<noteq> []
                          then st2\<lparr> states := set_add (trim s) (states st2) \<rparr>
                          else st2)
           in st3))"

text \<open>The handler of the \<open>end\<close> event: \<open>hospitals = results\<close>.\<close>

definition on_end :: "nat \<Rightarrow> server \<Rightarrow> server" where
  "on_end results st = st\<lparr> hospitals := results \<rparr>"

text \<open>
  \<open>loadHospitalData\<close>, given the rows the CSV parser delivers (\<open>None\<close>: there is no
  file, and the function returns after allocating \<open>results\<close>).
\<close>

definition loadHospitalData :: "jsval obj list option \<Rightarrow> server \<Rightarrow> server" where
  "loadHospitalData source st =
     (case new_array [] st of
        (results, st1) \<Rightarrow>
          (case source of
             None \<Rightarrow> st1
           | Some rows \<Rightarrow> on_end results (foldl (on_data results) st1 rows)))"

section \<open>Sorting an array with a comparator\<close>

text \<open>
  \<open>arr.sort(compare)\<close>. ECMAScript requires the sort to be stable, and for a consistent
  comparator every stable sort returns the same array; the model is insertion sort, each
  element inserted before the first one it does not follow. An exception thrown by the
  comparator leaves the sort.
\<close>

fun sort_insert :: "('a \<Rightarrow> 'a \<Rightarrow> error + int) \<Rightarrow> 'a \<Rightarrow> 'a list \<Rightarrow> error + 'a list" where
  "sort_insert cmp x [] = Inr [x]"
| "sort_insert cmp x (y # ys) =
     (case cmp x y of
        Inl e \<Rightarrow> Inl e
      | Inr c \<Rightarrow>
          if c \<le> 0 then Inr (x # y # ys)
          else (case sort_insert cmp x ys of Inl e \<Rightarrow> Inl e | Inr zs \<Rightarrow> Inr (y # zs)))"

fun js_sort :: "('a \<Rightarrow> 'a \<Rightarrow> error + int) \<Rightarrow> 'a list \<Rightarrow> error + 'a list" where
  "js_sort cmp [] = Inr []"
| "js_sort cmp (x # xs) =
     (case js_sort cmp xs of Inl e \<Rightarrow> Inl e | Inr ys \<Rightarrow> sort_insert cmp x ys)"

text \<open>Sorting in place the array at address \<open>a\<close>.\<close>

definition array_sort ::
  "(hospital \<Rightarrow> hospital \<Rightarrow> error + int) \<Rightarrow> nat \<Rightarrow> server \<Rightarrow> error + server" where
  "array_sort cmp a st =
     (case js_sort cmp (heap st a) of
        Inl e \<Rightarrow> Inl e
      | Inr ys \<Rightarrow> Inr (st\<lparr> heap := (heap st)(a := ys) \<rparr>))"

text \<open>
  The same sort for a comparator that throws nothing, and what makes a comparator
  consistent: \<open>compare(a, b) < 0\<close> exactly when \<open>compare(b, a) > 0\<close>, and "not after"
  is transitive.
\<close>

fun insert_by :: "('a \<Rightarrow> 'a \<Rightarrow> int) \<Rightarrow> 'a \<Rightarrow> 'a list \<Rightarrow> 'a list" where
  "insert_by c x [] = [x]"
| "insert_by c x (y # ys) = (if c x y \<le> 0 then x # y # ys else y # insert_by c x ys)"

definition sort_by :: "('a \<Rightarrow> 'a \<Rightarrow> int) \<Rightarrow> 'a list \<Rightarrow> 'a list" where
  "sort_by c xs = foldr (insert_by c) xs []"

definition consistent :: "('a \<Rightarrow> 'a \<Rightarrow> int) \<Rightarrow> bool" where
  "consistent c =
     ((\<forall>a b. (c a b < 0) = (c b a > 0)) \<and>
      (\<forall>a b d. c a b \<le> 0 \<and> c b d \<le> 0 \<longrightarrow> c a d \<le> 0))"

section \<open>Query Engine: the handlers of the routes\<close>

datatype 'a response = Json 'a | Status400 | Status404 | Status500

text \<open>
  A parameter of the query string used as a condition (\<open>if (locality)\<close>): the text, when
  there is one and it is not empty.
\<close>

definition given :: "string option \<Rightarrow> string option" where
  "given v = (case v of None \<Rightarrow> None | Some s \<Rightarrow> if s = [] then None else Some s)"

text \<open>\<^verbatim>\<open>v && v.toLowerCase() === t.toLowerCase()\<close>\<close>

definition lower_equals :: "string option \<Rightarrow> string \<Rightarrow> bool" where
  "lower_equals v t =
     (truthy v \<and> (case v of None \<Rightarrow> False | Some s \<Rightarrow> toLowerCase s = toLowerCase t))"

text \<open>\<^verbatim>\<open>v && v.toLowerCase().includes(t.toLowerCase())\<close>\<close>

definition lower_contains :: "string option \<Rightarrow> string \<Rightarrow> bool" where
  "lower_contains v t = (truthy v \<and> opt_lower_includes v (toLowerCase t))"

text \<open>\<open>GET /api/hospitals\<close>\<close>

definition api_hospitals :: "server \<Rightarrow> hospital list response \<times> server" where
  "api_hospitals st = (Json (heap st (hospitals st)), st)"

text \<open>
  The comparator of \<open>GET /api/hospitals/district/:district\<close>; the optional chain
  \<open>?.\<close> keeps it from throwing.
\<close>

definition locality_cmp :: "string \<Rightarrow> hospital \<Rightarrow> hospital \<Rightarrow> int" where
  "locality_cmp locality a b =
     (let aInLocality = opt_lower_includes (subdistrict a) (toLowerCase locality);
          bInLocality = opt_lower_includes (subdistrict b) (toLowerCase locality)
      in if aInLocality \<and> \<not> bInLocality then - 1
         else if \<not> aInLocality \<and> bInLocality then 1
         else 0)"

text \<open>\<open>GET /api/hospitals/district/:district\<close>, with the optional \<open>locality\<close>.\<close>

definition api_hospitals_district ::
  "string \<Rightarrow> string option \<Rightarrow> server \<Rightarrow> hospital list response \<times> server" where
  "api_hospitals_district dist locality st =
     (if dist = [] then (Status400, st)
      else
        (case array_filter (\<lambda>h. lower_equals (district h) dist) (hospitals st) st of
           (filteredHospitals, st1) \<Rightarrow>
             (case given locality of
                None \<Rightarrow> (Json (heap st1 filteredHospitals), st1)
              | Some l \<Rightarrow>
                  (case array_sort (\<lambda>a b. Inr (locality_cmp l a b)) filteredHospitals st1 of
                     Inl e \<Rightarrow> (Status500, st1)
                   | Inr st2 \<Rightarrow> (Json (heap st2 filteredHospitals), st2)))))"

text \<open>\<open>GET /api/hospitals/state/:state\<close>\<close>

definition api_hospitals_state :: "string \<Rightarrow> server \<Rightarrow> hospital list response \<times> server" where
  "api_hospitals_state stt st =
     (if stt = [] then (Status400, st)
      else
        (case array_filter (\<lambda>h. lower_equals (state h) stt) (hospitals st) st of
           (filteredHospitals, st1) \<Rightarrow> (Json (heap st1 filteredHospitals), st1)))"

text \<open>
  \<open>GET /api/state/:state/districts\<close>. The arrays of texts that \<open>map\<close>, \<open>filter\<close> and
  the spread of the new Set build are referred to by nothing else and are values here;
  \<open>sort()\<close> with no comparator orders texts by their code units.
\<close>

definition api_state_districts :: "string \<Rightarrow> server \<Rightarrow> string list response \<times> server" where
  "api_state_districts stt st =
     (if stt = [] then (Status400, st)
      else
        (case array_filter (\<lambda>h. lower_equals (state h) stt) (hospitals st) st of
           (matching, st1) \<Rightarrow>
             (let mapped = map district (heap st1 matching);
                  kept = concat (map (\<lambda>d. case d of None \<Rightarrow> [] | Some t \<Rightarrow> if t = [] then [] else [t]) mapped);
                  stateDistricts = sort (foldl (\<lambda>s x. set_add x s) [] kept)
              in (Json stateDistricts, st1))))"

text \<open>The comparator of \<open>GET /api/hospitals/search\<close>; \<open>localeCompare\<close> is the
  collation of the runtime, a parameter of the model.\<close>

definition search_cmp ::
  "(string \<Rightarrow> string \<Rightarrow> int) \<Rightarrow> string \<Rightarrow> string option \<Rightarrow> hospital \<Rightarrow> hospital \<Rightarrow> error + int" where
  "search_cmp localeCompare query locality a b =
     (case name a of
        None \<Rightarrow> Inl TypeError
      | Some a_name \<Rightarrow>
          (case name b of
             None \<Rightarrow> Inl TypeError
           | Some b_name \<Rightarrow>
               (let aExactMatch = (toLowerCase a_name = toLowerCase query);
                    bExactMatch = (toLowerCase b_name = toLowerCase query)
                in if aExactMatch \<and> \<not> bExactMatch then Inr (- 1)
                   else if \<not> aExactMatch \<and> bExactMatch then Inr 1
                   else
                     (case given locality of
                        None \<Rightarrow> Inr (localeCompare a_name b_name)
                      | Some l \<Rightarrow>
                          (let aInLocality = opt_lower_includes (subdistrict a) (toLowerCase l);
                               bInLocality = opt_lower_includes (subdistrict b) (toLowerCase l)
                           in if aInLocality \<and> \<not> bInLocality then Inr (- 1)
                              else if \<not> aInLocality \<and> bInLocality then Inr 1
                              else Inr (localeCompare a_name b_name))))))"

text \<open>\<open>GET /api/hospitals/search\<close>, with \<open>query\<close>, \<open>district\<close> and \<open>locality\<close> of the
  query string.\<close>

definition api_hospitals_search ::
  "(string \<Rightarrow> string \<Rightarrow> int) \<Rightarrow> string option \<Rightarrow> string option \<Rightarrow> string option \<Rightarrow> server
     \<Rightarrow> hospital list response \<times> server" where
  "api_hospitals_search localeCompare query dist locality st =
     (case given query of
        None \<Rightarrow> (Status400, st)
      | Some q \<Rightarrow>
          (case array_filter (\<lambda>h. lower_contains (name h) q) (hospitals st) st of
             (f0, st1) \<Rightarrow>
               (case (case given dist of
                        None \<Rightarrow> (f0, st1)
                      | Some d \<Rightarrow> array_filter (\<lambda>h. lower_equals (district h) d) f0 st1) of
                  (f1, st2) \<Rightarrow>
                    (case (case given locality of
                             None \<Rightarrow> (f1, st2)
                           | Some l \<Rightarrow> array_filter (\<lambda>h. lower_contains (subdistrict h) l) f1 st2) of
                       (filteredHospitals, st3) \<Rightarrow>
                         (case array_sort (search_cmp localeCompare q locality) filteredHospitals st3 of
                            Inl e \<Rightarrow> (Status500, st3)
                          | Inr st4 \<Rightarrow> (Json (heap st4 filteredHospitals), st4))))))"

text \<open>\<open>GET /api/districts\<close> and \<open>GET /api/states\<close>: the spread of the Set, sorted.\<close>

definition api_districts :: "server \<Rightarrow> string list response \<times> server" where
  "api_districts st = (Json (sort (districts st)), st)"

definition api_states :: "server \<Rightarrow> string list response \<times> server" where
  "api_states st = (Json (sort (states st)), st)"

text \<open>\<open>GET /api/hospitals/:id\<close>: \<open>find\<close> returns the first element that passes.\<close>

definition api_hospitals_id :: "string \<Rightarrow> server \<Rightarrow> hospital response \<times> server" where
  "api_hospitals_id i st =
     (if i = [] then (Status400, st)
      else
        (case find (\<lambda>h. id' h = Some i) (heap st (hospitals st)) of
           None \<Rightarrow> (Status404, st)
         | Some hospital \<Rightarrow> (Json hospital, st)))"

text \<open>\<open>GET /api/hospitals/locality/:locality\<close>\<close>

definition api_hospitals_locality :: "string \<Rightarrow> server \<Rightarrow> hospital list response \<times> server" where
  "api_hospitals_locality locality st =
     (if locality = [] then (Status400, st)
      else
        (case array_filter (\<lambda>h. lower_contains (subdistrict h) locality) (hospitals st) st of
           (filteredHospitals, st1) \<Rightarrow> (Json (heap st1 filteredHospitals), st1)))"

text \<open>The operations of the Query Engine as requests, and the router.\<close>

datatype request =
    ListAll
  | ByDistrict string "string option"
  | ByState string
  | DistrictsForState string
  | Search "string option" "string option" "string option"
  | Districts
  | States
  | ById string
  | ByLocality string

datatype body = Records "hospital list" | Record hospital | Names "string list"

definition reply :: "('a \<Rightarrow> body) \<Rightarrow> 'a response \<times> server \<Rightarrow> body response \<times> server" where
  "reply f r = (map_response f (fst r), snd r)"

fun handle :: "(string \<Rightarrow> string \<Rightarrow> int) \<Rightarrow> request \<Rightarrow> server \<Rightarrow> body response \<times> server" where
  "handle lc ListAll st = reply Records (api_hospitals st)"
| "handle lc (ByDistrict d l) st = reply Records (api_hospitals_district d l st)"
| "handle lc (ByState s) st = reply Records (api_hospitals_state s st)"
| "handle lc (DistrictsForState s) st = reply Names (api_state_districts s st)"
| "handle lc (Search q d l) st = reply Records (api_hospitals_search lc q d l st)"
| "handle lc Districts st = reply Names (api_districts st)"
| "handle lc States st = reply Names (api_states st)"
| "handle lc (ById i) st = reply Record (api_hospitals_id i st)"
| "handle lc (ByLocality l) st = reply Records (api_hospitals_locality l st)"

section \<open>The Query Engine in the words of the specification\<close>

text \<open>
  A field equals, or contains, a text without regard to case; an absent field does
  neither.
\<close>

definition equals_ci :: "string option \<Rightarrow> string \<Rightarrow> bool" where
  "equals_ci v t = (case v of None \<Rightarrow> False | Some s \<Rightarrow> toLowerCase s = toLowerCase t)"

definition contains_ci :: "string option \<Rightarrow> string \<Rightarrow> bool" where
  "contains_ci v t =
     (case v of None \<Rightarrow> False | Some s \<Rightarrow> str_includes (toLowerCase s) (toLowerCase t))"

text \<open>The text of a field, an absent one read as \<open>""\<close>.\<close>

definition text_of :: "string option \<Rightarrow> string" where
  "text_of v = (case v of None \<Rightarrow> [] | Some s \<Rightarrow> s)"

text \<open>
  The text of a field contains a text without regard to case, for every text: an absent
  field is read as \<open>""\<close>, which contains the empty text and no other.
\<close>

definition text_contains :: "string option \<Rightarrow> string \<Rightarrow> bool" where
  "text_contains v t = str_includes (toLowerCase (text_of v)) (toLowerCase t)"

text \<open>
  The candidate set of a search: the name contains the query, the district equals the
  district filter if one is given, the subdistrict contains the locality filter if one is
  given.
\<close>

definition candidate :: "string \<Rightarrow> string option \<Rightarrow> string option \<Rightarrow> hospital \<Rightarrow> bool" where
  "candidate q dist locality h =
     (contains_ci (name h) q \<and>
      (case given dist of None \<Rightarrow> True | Some d \<Rightarrow> equals_ci (district h) d) \<and>
      (case given locality of None \<Rightarrow> True | Some l \<Rightarrow> contains_ci (subdistrict h) l))"

text \<open>
  The three levels of the search order: \<open>a\<close> may stand before \<open>b\<close> when \<open>a\<close> is an
  exact match and \<open>b\<close> is not; or, both or neither being exact, when a locality was
  given and only \<open>a\<close> is in it; or, that being equal too, when the name of \<open>a\<close> does
  not come after the name of \<open>b\<close> in the collation.
\<close>

definition in_locality :: "string option \<Rightarrow> hospital \<Rightarrow> bool" where
  "in_locality locality h =
     (case given locality of None \<Rightarrow> True | Some l \<Rightarrow> contains_ci (subdistrict h) l)"

definition ranks_before ::
  "(string \<Rightarrow> string \<Rightarrow> int) \<Rightarrow> string \<Rightarrow> string option \<Rightarrow> hospital \<Rightarrow> hospital \<Rightarrow> bool" where
  "ranks_before lc q locality a b =
     ((equals_ci (name a) q \<and> \<not> equals_ci (name b) q) \<or>
      (equals_ci (name a) q = equals_ci (name b) q \<and>
         ((in_locality locality a \<and> \<not> in_locality locality b) \<or>
          (in_locality locality a = in_locality locality b \<and>
             lc (text_of (name a)) (text_of (name b)) \<le> 0))))"

text \<open>
  The number the comparator of the search returns for two records that have names.
\<close>

definition search_rank ::
  "(string \<Rightarrow> string \<Rightarrow> int) \<Rightarrow> string \<Rightarrow> string option \<Rightarrow> hospital \<Rightarrow> hospital \<Rightarrow> int" where
  "search_rank lc q locality a b =
     (if equals_ci (name a) q \<and> \<not> equals_ci (name b) q then - 1
      else if \<not> equals_ci (name a) q \<and> equals_ci (name b) q then 1
      else if in_locality locality a \<and> \<not> in_locality locality b then - 1
      else if \<not> in_locality locality a \<and> in_locality locality b then 1
      else lc (text_of (name a)) (text_of (name b)))"

text \<open>The first two levels of the search order as one number.\<close>

definition search_key :: "string \<Rightarrow> string option \<Rightarrow> hospital \<Rightarrow> nat" where
  "search_key q locality h =
     (if equals_ci (name h) q then 0 else 2) + (if in_locality locality h then 0 else 1)"

text \<open>The comparison of texts by code units, a consistent collation for the examples.\<close>

definition code_unit_compare :: "string \<Rightarrow> string \<Rightarrow> int" where
  "code_unit_compare a b = (if a < b then - 1 else if a = b then 0 else 1)"

section \<open>The rows of the specification's scenarios\<close>

text \<open>The row of the end-to-end scenario, which is accepted.\<close>

definition scenario_row :: "jsval obj" where
  "scenario_row =
     [ (''Hospital_Name'', JStr ''City General Hospital''),
       (''Discipline_Systems_of_Medicine'', JStr ''Allopathy''),
       (''Hospital_Category'', JStr ''General''),
       (''Total_Num_Beds'', JStr ''50''),
       (''Number_Doctor'', JStr ''10''),
       (''State'', JStr ''Maharashtra''),
       (''District'', JStr ''Pune'') ]"

text \<open>The record made of that row.\<close>

definition scenario_hospital :: hospital where
  "scenario_hospital =
     hospital_of
       [ (''Hospital_Name'', ''City General Hospital''),
         (''Discipline_Systems_of_Medicine'', ''Allopathy''),
         (''Hospital_Category'', ''General''),
         (''Total_Num_Beds'', ''50''),
         (''Number_Doctor'', ''10''),
         (''State'', ''Maharashtra''),
         (''District'', ''Pune'') ]"

text \<open>The same row from a file that has no column \<open>Hospital_Category\<close>.\<close>

definition no_category_row :: "jsval obj" where
  "no_category_row = filter (\<lambda>(k, v). k \<noteq> ''Hospital_Category'') scenario_row"

text \<open>
  Five rows that are accepted, all of the district Pune, two of them with the same
  identifier; the records they make, and the state of the server once they are loaded.
\<close>

definition example_row :: "string \<Rightarrow> string \<Rightarrow> string \<Rightarrow> jsval obj" where
  "example_row i n sub =
     [ (''Sr_No'', JStr i),
       (''Hospital_Name'', JStr n),
       (''Discipline_Systems_of_Medicine'', JStr ''Allopathy''),
       (''Hospital_Category'', JStr ''General''),
       (''Total_Num_Beds'', JStr ''50''),
       (''Number_Doctor'', JStr ''10''),
       (''State'', JStr ''Maharashtra''),
       (''District'', JStr ''Pune''),
       (''Subdistrict'', JStr sub) ]"

definition example_rows :: "jsval obj list" where
  "example_rows =
     [ example_row ''1'' ''Sunrise City Hospital'' ''Haveli'',
       example_row ''2'' ''City General Hospital'' ''Pune City'',
       example_row ''3'' ''City Hospital'' ''Haveli'',
       example_row ''4'' ''New City Hospital'' ''Pune City'',
       example_row ''3'' ''Second Hospital'' ''Mulshi'' ]"


definition example_hospital :: "string \<Rightarrow> string \<Rightarrow> string \<Rightarrow> hospital" where
  "example_hospital i n sub =
     scenario_hospital\<lparr> id' := Some i, name := Some n, subdistrict := Some sub \<rparr>"

definition example_store :: "hospital list" where
  "example_store =
     [ example_hospital ''1'' ''Sunrise City Hospital'' ''Haveli'',
       example_hospital ''2'' ''City General Hospital'' ''Pune City'',
       example_hospital ''3'' ''City Hospital'' ''Haveli'',
       example_hospital ''4'' ''New City Hospital'' ''Pune City'',
       example_hospital ''3'' ''Second Hospital'' ''Mulshi'' ]"

definition example_server :: server where
  "example_server =
     \<lparr> heap = (\<lambda>a. if a = 1 then example_store else []), brk = 2, hospitals = 1,
       districts = [''Pune''], states = [''Maharashtra''] \<rparr>"

text \<open>
  A store of two records of the district Pune, the first from a row that had no column
  \<open>Subdistrict\<close>.
\<close>

definition sparse_store :: "hospital list" where
  "sparse_store =
     [ scenario_hospital\<lparr> id' := Some ''1'' \<rparr>,
       example_hospital ''2'' ''City Hospital'' ''Haveli'' ]"

definition sparse_server :: server where
  "sparse_server =
     \<lparr> heap = (\<lambda>a. if a = 1 then sparse_store else []), brk = 2, hospitals = 1,
       districts = [''Pune''], states = [''Maharashtra''] \<rparr>"

section \<open>Properties of strings\<close>

lemma str_includes_iff: "str_includes s t \<longleftrightarrow> (\<exists>p r. s = p @ t @ r)"
proof (induction s)
  case Nil
  then show ?case by auto
next
  case (Cons c s)
  have "take (length t) (c # s) = t \<longleftrightarrow> (\<exists>r. c # s = t @ r)"
    by (metis append_eq_conv_conj)
  moreover have "(\<exists>p r. c # s = p @ t @ r) \<longleftrightarrow> (\<exists>r. c # s = t @ r) \<or> (\<exists>p r. s = p @ t @ r)"
    by (auto simp: Cons_eq_append_conv)
  ultimately show ?case using Cons.IH by simp
qed

section \<open>Properties of sorting\<close>

lemma sort_by_simps [simp]:
  "sort_by c [] = []"
  "sort_by c (x # xs) = insert_by c x (sort_by c xs)"
  by (simp_all add: sort_by_def)

lemma mset_insert_by: "mset (insert_by c x ys) = add_mset x (mset ys)"
  by (induction ys) auto

lemma mset_sort_by: "mset (sort_by c xs) = mset xs"
  by (induction xs) (auto simp: mset_insert_by)

lemma set_insert_by: "set (insert_by c x ys) = insert x (set ys)"
  by (induction ys) auto

lemma set_sort_by: "set (sort_by c xs) = set xs"
  by (induction xs) (auto simp: set_insert_by)

lemma sort_insert_pure:
  "\<forall>y \<in> set ys. cmp x y = Inr (c x y) \<Longrightarrow> sort_insert cmp x ys = Inr (insert_by c x ys)"
  by (induction ys) auto

lemma js_sort_pure:
  "\<forall>a \<in> set xs. \<forall>b \<in> set xs. cmp a b = Inr (c a b) \<Longrightarrow> js_sort cmp xs = Inr (sort_by c xs)"
proof (induction xs)
  case Nil
  then show ?case by simp
next
  case (Cons x xs)
  then have "js_sort cmp xs = Inr (sort_by c xs)" by simp
  moreover from Cons.prems have "\<forall>y \<in> set (sort_by c xs). cmp x y = Inr (c x y)"
    by (simp add: set_sort_by)
  ultimately show ?case by (simp add: sort_insert_pure)
qed



lemma consistent_flip: "consistent c \<Longrightarrow> (c a b < 0) = (0 < c b a)"
  unfolding consistent_def by blast

lemma consistent_total:
  assumes "consistent c" and "0 < c a b"
  shows "c b a \<le> 0"
proof -
  from consistent_flip [OF assms(1), of b a] assms(2) have "c b a < 0" by simp
  then show ?thesis by simp
qed

lemma consistent_trans:
  assumes "consistent c" and "c a b \<le> 0" and "c b d \<le> 0"
  shows "c a d \<le> 0"
proof -
  from assms(1) have "\<forall>a b d. c a b \<le> 0 \<and> c b d \<le> 0 \<longrightarrow> c a d \<le> 0"
    unfolding consistent_def by blast
  with assms(2,3) show ?thesis by blast
qed

lemma consistent_sym:
  assumes "consistent c" and "c a b = 0"
  shows "c b a = 0"
proof -
  from consistent_flip [OF assms(1), of a b] assms(2) have "\<not> 0 < c b a" by simp
  moreover from consistent_flip [OF assms(1), of b a] assms(2) have "\<not> c b a < 0" by simp
  ultimately show ?thesis by simp
qed

lemma sorted_insert_by:
  assumes "consistent c"
  shows "sorted_wrt (\<lambda>a b. c a b \<le> 0) ys \<Longrightarrow> sorted_wrt (\<lambda>a b. c a b \<le> 0) (insert_by c x ys)"
proof (induction ys)
  case Nil
  then show ?case by simp
next
  case (Cons y ys)
  show ?case
  proof (cases "c x y \<le> 0")
    case True
    have "c x z \<le> 0" if "z \<in> set ys" for z
    proof -
      from Cons.prems that have "c y z \<le> 0" by simp
      with True show ?thesis by (rule consistent_trans [OF assms])
    qed
    with True Cons.prems show ?thesis by simp
  next
    case False
    then have "c y x \<le> 0" using assms by (simp add: consistent_total)
    moreover from Cons have "sorted_wrt (\<lambda>a b. c a b \<le> 0) (insert_by c x ys)" by simp
    ultimately show ?thesis using False Cons.prems
      by (simp add: set_insert_by)
  qed
qed

lemma sorted_sort_by: "consistent c \<Longrightarrow> sorted_wrt (\<lambda>a b. c a b \<le> 0) (sort_by c xs)"
  by (induction xs) (simp_all add: sorted_insert_by)

lemma filter_insert_by:
  assumes "consistent c"
  shows "filter (\<lambda>b. c a b = 0) (insert_by c x ys) =
           (if c a x = 0 then x # filter (\<lambda>b. c a b = 0) ys else filter (\<lambda>b. c a b = 0) ys)"
proof (induction ys)
  case Nil
  then show ?case by simp
next
  case (Cons y ys)
  show ?case
  proof (cases "c x y \<le> 0")
    case True
    then show ?thesis by simp
  next
    case False
    have ins: "insert_by c x (y # ys) = y # insert_by c x ys"
      using False by simp
    show ?thesis
    proof (cases "c a x = 0")
      case ax: True
      have "c a y \<noteq> 0"
      proof
        assume ay: "c a y = 0"
        have "c x a = 0" by (rule consistent_sym [OF assms ax])
        then have "c x a \<le> 0" by simp
        moreover from ay have "c a y \<le> 0" by simp
        ultimately have "c x y \<le> 0" by (rule consistent_trans [OF assms])
        with False show False by simp
      qed
      with ax Cons.IH show ?thesis unfolding ins by simp
    next
      case nax: False
      with Cons.IH show ?thesis unfolding ins by simp
    qed
  qed
qed

lemma sort_by_stable:
  "consistent c \<Longrightarrow> filter (\<lambda>b. c a b = 0) (sort_by c xs) = filter (\<lambda>b. c a b = 0) xs"
  by (induction xs) (simp_all add: filter_insert_by)

section \<open>Properties of the Normalizer\<close>

lemma sanitizeValue_raw_text:
  "raw_text v \<Longrightarrow> sanitizeValue v = Inr (normalized v)"
  by (cases v) (auto simp: sanitizeValue_def)

lemma sanitize_loop_raw_text:
  assumes "\<forall>k \<in> set keys. raw_text (get data k)"
  shows "\<exists>result'. sanitize_loop data keys result = Inr result' \<and>
           (\<forall>k. map_of result' k =
              (if k \<in> set keys then Some (normalized (get data k)) else map_of result k))"
  using assms
proof (induction keys arbitrary: result)
  case Nil
  then show ?case by simp
next
  case (Cons key keys)
  from Cons.prems have v: "sanitizeValue (get data key) = Inr (normalized (get data key))"
    by (simp add: sanitizeValue_raw_text)
  from Cons.prems have rest: "\<forall>k \<in> set keys. raw_text (get data k)"
    by simp
  from Cons.IH [OF rest, of "AList.update key (normalized (get data key)) result"]
  obtain result' where
    r: "sanitize_loop data keys (AList.update key (normalized (get data key)) result) = Inr result'"
    and m: "\<forall>k. map_of result' k =
              (if k \<in> set keys then Some (normalized (get data k))
               else map_of (AList.update key (normalized (get data key)) result) k)"
    by blast
  from r v have "sanitize_loop data (key # keys) result = Inr result'"
    by simp
  moreover from m have "\<forall>k. map_of result' k =
      (if k \<in> set (key # keys) then Some (normalized (get data k)) else map_of result k)"
    by (auto simp: update_conv')
  ultimately show ?case by blast
qed

lemma get_of_key: "map_of data k = Some v \<Longrightarrow> get data k = v"
  by (simp add: get_def)

lemma raw_text_get:
  assumes "\<forall>v \<in> snd ` set data. raw_text v"
  shows "raw_text (get data k)"
proof (cases "map_of data k")
  case None
  then show ?thesis by (simp add: get_def)
next
  case (Some v)
  then have "(k, v) \<in> set data" by (rule map_of_SomeD)
  with assms have "raw_text v" by force
  with Some show ?thesis by (simp add: get_def)
qed

lemma sanitizeData_raw_text:
  assumes "\<forall>v \<in> snd ` set data. raw_text v"
  shows "\<exists>result. sanitizeData data = Inr result \<and>
           (\<forall>k. map_of result k = map_option normalized (map_of data k))"
proof -
  have "\<forall>k \<in> set (map fst data). raw_text (get data k)"
    using raw_text_get [OF assms] by blast
  from sanitize_loop_raw_text [OF this, of "[]"]
  obtain result where
    r: "sanitize_loop data (map fst data) [] = Inr result"
    and m: "\<forall>k. map_of result k =
              (if k \<in> set (map fst data) then Some (normalized (get data k)) else map_of [] k)"
    by blast
  have "map_of result k = map_option normalized (map_of data k)" for k
  proof (cases "map_of data k")
    case None
    then have "k \<notin> set (map fst data)" by (simp add: map_of_eq_None_iff)
    with m None show ?thesis by simp
  next
    case (Some v)
    then have "k \<in> set (map fst data)"
      by (metis map_of_eq_None_iff option.distinct(1) set_map)
    with m Some show ?thesis by (simp add: get_of_key)
  qed
  with r show ?thesis by (simp add: sanitizeData_def)
qed

lemma trim_example: "trim '' City Hospital '' = ''City Hospital''"
  by (simp add: trim_def isWhiteSpace_def)

text \<open>
  C6. For every raw row of texts (a value may also be missing or \<open>null\<close>) the Normalizer
  raises no exception and returns a row with the same keys, in which a value that is
  false or exactly \<open>"0"\<close> has become \<open>""\<close> and every other value is the raw value
  trimmed; in particular \<open>""\<close>, \<open>null\<close> and \<open>"0"\<close> all yield \<open>""\<close>.
\<close>

theorem sanitizeData_normalizes:
  assumes "\<forall>v \<in> snd ` set data. raw_text v"
  shows "\<exists>result. sanitizeData data = Inr result \<and>
           (\<forall>k. map_of result k = map_option normalized (map_of data k)) \<and>
           sanitizeValue (JStr []) = Inr [] \<and> sanitizeValue JNull = Inr [] \<and>
           sanitizeValue (JStr ''0'') = Inr []"
  using sanitizeData_raw_text [OF assms] by (simp add: sanitizeValue_def)

theorem sanitizeData_normalizes_witness:
  "\<exists>result. sanitizeData [(''Sr_No'', JStr ''0''), (''Hospital_Name'', JStr '' City Hospital ''),
        (''Website'', JNull), (''State'', JStr [])] = Inr result \<and>
     map_of result ''Sr_No'' = Some [] \<and>
     map_of result ''Hospital_Name'' = Some ''City Hospital'' \<and>
     map_of result ''Website'' = Some [] \<and>
     map_of result ''State'' = Some [] \<and>
     map_of result ''District'' = None"
proof -
  let ?data = "[(''Sr_No'', JStr ''0''), (''Hospital_Name'', JStr '' City Hospital ''),
        (''Website'', JNull), (''State'', JStr [])]"
  have "\<forall>v \<in> snd ` set ?data. raw_text v" by simp
  from sanitizeData_normalizes [OF this]
  obtain result where r: "sanitizeData ?data = Inr result"
    and m: "\<forall>k. map_of result k = map_option normalized (map_of ?data k)"
    by blast
  from m have "map_of result ''Sr_No'' = Some []"
    and "map_of result ''Hospital_Name'' = Some ''City Hospital''"
    and "map_of result ''Website'' = Some []"
    and "map_of result ''State'' = Some []"
    and "map_of result ''District'' = None"
    by (simp_all add: trim_example)
  with r show ?thesis by blast
qed

text \<open>
  C2, as the code has it. The claim fails for a raw value such as \<open>" 0 "\<close>: the value is
  compared with \<open>"0"\<close> before it is trimmed, so it is kept and trimmed to \<open>"0"\<close>.
\<close>

theorem sanitizeData_keeps_padded_zero:
  "sanitizeData [(''Total_Num_Beds'', JStr '' 0 '')] = Inr [(''Total_Num_Beds'', ''0'')]"
  by code_simp

text \<open>
  C2, amended. For every raw row of texts, a raw value that is exactly \<open>"0"\<close> becomes
  \<open>""\<close>, and a field of the normalized row is \<open>"0"\<close> exactly when its raw value is a
  text other than \<open>"0"\<close> that trims to \<open>"0"\<close>.
\<close>

theorem sanitizeData_zero:
  assumes "\<forall>v \<in> snd ` set data. raw_text v"
    and "sanitizeData data = Inr result"
  shows "(map_of data k = Some (JStr ''0'') \<longrightarrow> map_of result k = Some []) \<and>
         (map_of result k = Some ''0'' \<longleftrightarrow>
            (\<exists>s. map_of data k = Some (JStr s) \<and> s \<noteq> ''0'' \<and> trim s = ''0''))"
proof -
  from sanitizeData_raw_text [OF assms(1)] assms(2)
  have m: "map_of result k = map_option normalized (map_of data k)"
    by auto
  show ?thesis
  proof (cases "map_of data k")
    case None
    with m show ?thesis by simp
  next
    case (Some v)
    with m show ?thesis by (cases v) (auto simp: trim_def)
  qed
qed

theorem sanitizeData_zero_witness:
  "sanitizeData [(''Total_Num_Beds'', JStr ''0''), (''Number_Doctor'', JStr ''0 '')] =
     Inr [(''Total_Num_Beds'', []), (''Number_Doctor'', ''0'')] \<and>
   trim ''0 '' = ''0''"
proof -
  let ?data = "[(''Total_Num_Beds'', JStr ''0''), (''Number_Doctor'', JStr ''0 '')]"
  let ?result = "[(''Total_Num_Beds'', []), (''Number_Doctor'', ''0'')]"
  have raw: "\<forall>v \<in> snd ` set ?data. raw_text v" by simp
  have r: "sanitizeData ?data = Inr ?result" by code_simp
  have "map_of ?result ''Number_Doctor'' = Some ''0''" by simp
  with sanitizeData_zero [OF raw r, of "''Number_Doctor''"]
  have "trim ''0 '' = ''0''" by simp
  with r show ?thesis by simp
qed

section \<open>Properties of the Qualification Classifier\<close>

lemma and_chain_append:
  "and_chain (xs @ ys) =
     (case and_chain xs of Inl e \<Rightarrow> Inl e | Inr b \<Rightarrow> if b then and_chain ys else Inr False)"
  by (induction xs rule: and_chain.induct) auto

lemma text_checks_sizes [simp]:
  "text_checks (h\<lparr>totalBeds := x\<rparr>) = text_checks h"
  "text_checks (h\<lparr>doctors := y\<rparr>) = text_checks h"
  by (simp_all add: text_checks_def)

lemma qualifies_True_iff:
  "qualifies h = Inr True \<longleftrightarrow>
     and_chain (text_checks h) = Inr True \<and>
     parses_above (totalBeds h) 10 \<and> parses_above (doctors h) 2"
  by (auto simp: qualifies_def and_chain_append size_checks_def split: sum.splits if_splits)

lemma parseInt_10: "parseInt ''10'' = Some 10"
  by code_simp

lemma parseInt_11: "parseInt ''11'' = Some 11"
  by code_simp

lemma parseInt_3: "parseInt ''3'' = Some 3"
  by code_simp

lemma parseInt_2: "parseInt ''2'' = Some 2"
  by code_simp

lemma scenario_text_checks: "and_chain (text_checks scenario_hospital) = Inr True"
  by code_simp

text \<open>
  C5. The bounds on beds and doctors are strict: a record whose \<open>totalBeds\<close> parses to an
  integer of at most 10, or whose \<open>doctors\<close> parses to an integer of at most 2, is not
  accepted; a record that passes the checks on its texts is accepted with
  \<open>totalBeds = "11"\<close> and \<open>doctors = "3"\<close>, and rejected with \<open>totalBeds = "10"\<close>.
\<close>

theorem qualifies_strict_bounds:
  "(\<forall>s n. totalBeds h = Some s \<and> parseInt s = Some n \<and> n \<le> 10 \<longrightarrow> qualifies h \<noteq> Inr True) \<and>
   (\<forall>s n. doctors h = Some s \<and> parseInt s = Some n \<and> n \<le> 2 \<longrightarrow> qualifies h \<noteq> Inr True) \<and>
   (and_chain (text_checks h) = Inr True \<longrightarrow>
      qualifies (h\<lparr>totalBeds := Some ''11'', doctors := Some ''3''\<rparr>) = Inr True \<and>
      qualifies (h\<lparr>totalBeds := Some ''10'', doctors := Some ''3''\<rparr>) = Inr False)"
proof (intro conjI allI impI)
  fix s n assume "totalBeds h = Some s \<and> parseInt s = Some n \<and> n \<le> 10"
  then show "qualifies h \<noteq> Inr True"
    by (simp add: qualifies_True_iff parses_above_def)
next
  fix s n assume "doctors h = Some s \<and> parseInt s = Some n \<and> n \<le> 2"
  then show "qualifies h \<noteq> Inr True"
    by (simp add: qualifies_True_iff parses_above_def)
next
  assume t: "and_chain (text_checks h) = Inr True"
  then show "qualifies (h\<lparr>totalBeds := Some ''11'', doctors := Some ''3''\<rparr>) = Inr True"
    by (simp add: qualifies_True_iff parses_above_def truthy_def parseInt_11 parseInt_3)
  from t show "qualifies (h\<lparr>totalBeds := Some ''10'', doctors := Some ''3''\<rparr>) = Inr False"
    by (simp add: qualifies_def and_chain_append size_checks_def parses_above_def truthy_def
        parseInt_10 parseInt_3)
qed

theorem qualifies_strict_bounds_witness:
  "parseInt ''10'' = Some 10 \<and>
   qualifies (scenario_hospital\<lparr>totalBeds := Some ''10''\<rparr>) \<noteq> Inr True \<and>
   parseInt ''2'' = Some 2 \<and>
   qualifies (scenario_hospital\<lparr>doctors := Some ''2''\<rparr>) \<noteq> Inr True \<and>
   and_chain (text_checks scenario_hospital) = Inr True \<and>
   qualifies (scenario_hospital\<lparr>totalBeds := Some ''11'', doctors := Some ''3''\<rparr>) = Inr True \<and>
   qualifies (scenario_hospital\<lparr>totalBeds := Some ''10'', doctors := Some ''3''\<rparr>) = Inr False"
proof -
  have "qualifies (scenario_hospital\<lparr>totalBeds := Some ''10''\<rparr>) \<noteq> Inr True"
    using qualifies_strict_bounds [of "scenario_hospital\<lparr>totalBeds := Some ''10''\<rparr>"]
    by (simp add: parseInt_10)
  moreover have "qualifies (scenario_hospital\<lparr>doctors := Some ''2''\<rparr>) \<noteq> Inr True"
    using qualifies_strict_bounds [of "scenario_hospital\<lparr>doctors := Some ''2''\<rparr>"]
    by (simp add: parseInt_2)
  moreover have
    "qualifies (scenario_hospital\<lparr>totalBeds := Some ''11'', doctors := Some ''3''\<rparr>) = Inr True \<and>
     qualifies (scenario_hospital\<lparr>totalBeds := Some ''10'', doctors := Some ''3''\<rparr>) = Inr False"
    using qualifies_strict_bounds [of scenario_hospital] scenario_text_checks by blast
  ultimately show ?thesis
    by (simp add: parseInt_10 parseInt_2 scenario_text_checks)
qed

text \<open>
  C1, on the code. A row with a name, \<open>Allopathy\<close>, 50 beds and 10 doctors but no column
  \<open>Hospital_Category\<close> is not accepted: \<open>hospital.category.toLowerCase()\<close> throws a
  TypeError, the \<open>catch\<close> block skips the row, and the store stays empty. A category
  that is there and empty passes, and the fields \<open>specialties\<close> and \<open>careType\<close>,
  read through \<open>?.\<close>, pass when absent.
\<close>

theorem absent_category_throws:
  "classify_row no_category_row = Inl TypeError \<and>
   heap (loadHospitalData (Some [no_category_row]) init_server)
     (hospitals (loadHospitalData (Some [no_category_row]) init_server)) = [] \<and>
   qualifies (scenario_hospital\<lparr>category := None\<rparr>) = Inl TypeError \<and>
   qualifies (scenario_hospital\<lparr>category := Some []\<rparr>) = Inr True \<and>
   qualifies (scenario_hospital\<lparr>specialties := None, careType := None\<rparr>) = Inr True"
  by code_simp

section \<open>Properties of the Query Engine\<close>

lemma length_toLowerCase [simp]: "length (toLowerCase s) = length s"
  by (simp add: toLowerCase_def)

lemma toLowerCase_Nil_iff [simp]:
  "toLowerCase s = [] \<longleftrightarrow> s = []"
  "[] = toLowerCase s \<longleftrightarrow> s = []"
  "toLowerCase [] = []"
  by (auto simp: toLowerCase_def)

lemma lower_equals_iff: "t \<noteq> [] \<Longrightarrow> lower_equals v t = equals_ci v t"
  by (cases v) (auto simp: lower_equals_def equals_ci_def truthy_def)

lemma opt_lower_includes_iff: "opt_lower_includes v (toLowerCase t) = contains_ci v t"
  by (simp add: opt_lower_includes_def contains_ci_def)

lemma lower_contains_iff: "t \<noteq> [] \<Longrightarrow> lower_contains v t = contains_ci v t"
  by (cases v) (auto simp: lower_contains_def contains_ci_def opt_lower_includes_def truthy_def)

lemma insert_by_first:
  "\<forall>y \<in> set zs. c x y \<le> 0 \<Longrightarrow> insert_by c x zs = x # zs"
  by (cases zs) simp_all

lemma insert_by_after:
  "\<forall>y \<in> set as. 0 < c x y \<Longrightarrow> \<forall>y \<in> set bs. c x y \<le> 0 \<Longrightarrow>
     insert_by c x (as @ bs) = as @ x # bs"
  by (induction as) (simp_all add: insert_by_first)

lemma sort_by_partition:
  assumes "\<And>a b. c a b = (if P a \<and> \<not> P b then - 1 else if \<not> P a \<and> P b then 1 else 0)"
  shows "sort_by c xs = filter P xs @ filter (\<lambda>x. \<not> P x) xs"
proof (induction xs)
  case Nil
  then show ?case by simp
next
  case (Cons x xs)
  show ?case
  proof (cases "P x")
    case True
    then have "\<forall>y \<in> set (filter P xs @ filter (\<lambda>x. \<not> P x) xs). c x y \<le> 0"
      by (simp add: assms)
    then show ?thesis using True Cons.IH by (simp add: insert_by_first)
  next
    case False
    then have "\<forall>y \<in> set (filter P xs). 0 < c x y"
      and "\<forall>y \<in> set (filter (\<lambda>x. \<not> P x) xs). c x y \<le> 0"
      by (simp_all add: assms)
    then have "insert_by c x (filter P xs @ filter (\<lambda>x. \<not> P x) xs) =
               filter P xs @ x # filter (\<lambda>x. \<not> P x) xs"
      by (rule insert_by_after)
    then show ?thesis using False Cons.IH by simp
  qed
qed

lemma locality_cmp_partition:
  "sort_by (locality_cmp l) xs =
     filter (\<lambda>h. contains_ci (subdistrict h) l) xs @
     filter (\<lambda>h. \<not> contains_ci (subdistrict h) l) xs"
  by (rule sort_by_partition) (simp add: locality_cmp_def opt_lower_includes_iff)

lemma js_sort_total: "js_sort (\<lambda>a b. Inr (c a b)) xs = Inr (sort_by c xs)"
  by (rule js_sort_pure) simp

lemma api_hospitals_district_result:
  assumes "D \<noteq> []"
  shows "fst (api_hospitals_district D locality st) =
     Json (case given locality of
             None \<Rightarrow> filter (\<lambda>h. equals_ci (district h) D) (heap st (hospitals st))
           | Some l \<Rightarrow> sort_by (locality_cmp l) (filter (\<lambda>h. equals_ci (district h) D) (heap st (hospitals st))))"
  using assms
  by (simp add: api_hospitals_district_def array_filter_def new_array_def array_sort_def
      js_sort_total lower_equals_iff split: option.splits)

lemma example_store_heap: "heap example_server (hospitals example_server) = example_store"
  by (simp add: example_server_def)

lemma sparse_store_heap: "heap sparse_server (hospitals sparse_server) = sparse_store"
  by (simp add: sparse_server_def)

lemma str_includes_Nil: "str_includes s []"
  by (induction s) simp_all

lemma text_contains_Nil: "text_contains v []"
  by (simp add: text_contains_def str_includes_Nil)

lemma text_contains_iff: "t \<noteq> [] \<Longrightarrow> text_contains v t = contains_ci v t"
  by (cases v) (simp_all add: text_contains_def contains_ci_def text_of_def)

text \<open>
  C3. For a district name \<open>D\<close> that is not empty and every locality \<open>L\<close>, the empty
  one too, the records returned for the district are the records of \<open>listAll\<close> whose
  district equals \<open>D\<close> without regard to case, those whose subdistrict contains \<open>L\<close>
  first and the others after, each group in the order of \<open>listAll\<close>; an absent
  subdistrict is read as \<open>""\<close>.
\<close>

theorem district_stable_partition:
  assumes "D \<noteq> []"
  shows "\<exists>all. fst (api_hospitals st) = Json all \<and>
           fst (api_hospitals_district D (Some L) st) =
             Json (filter (\<lambda>h. text_contains (subdistrict h) L)
                     (filter (\<lambda>h. equals_ci (district h) D) all) @
                   filter (\<lambda>h. \<not> text_contains (subdistrict h) L)
                     (filter (\<lambda>h. equals_ci (district h) D) all))"
proof (cases "L = []")
  case True
  with assms show ?thesis
    by (simp add: api_hospitals_def api_hospitals_district_result given_def text_contains_Nil)
next
  case False
  with assms show ?thesis
    by (simp add: api_hospitals_def api_hospitals_district_result given_def
        locality_cmp_partition text_contains_iff)
qed

theorem district_stable_partition_witness:
  "''pune'' \<noteq> [] \<and>
   map_response (map id') (fst (api_hospitals_district ''pune'' (Some ''haveli'') example_server)) =
     Json [Some ''1'', Some ''3'', Some ''2'', Some ''4'', Some ''3''] \<and>
   map_response (map id') (fst (api_hospitals_district ''pune'' (Some []) sparse_server)) =
     Json [Some ''1'', Some ''2''] \<and>
   map_response (map id') (fst (api_hospitals_district ''pune'' (Some ''haveli'') sparse_server)) =
     Json [Some ''2'', Some ''1'']"
proof -
  have d: "''pune'' \<noteq> []" by simp
  from district_stable_partition [OF d, of example_server "''haveli''"]
  have "fst (api_hospitals_district ''pune'' (Some ''haveli'') example_server) =
          Json (filter (\<lambda>h. text_contains (subdistrict h) ''haveli'')
                  (filter (\<lambda>h. equals_ci (district h) ''pune'') example_store) @
                filter (\<lambda>h. \<not> text_contains (subdistrict h) ''haveli'')
                  (filter (\<lambda>h. equals_ci (district h) ''pune'') example_store))"
    by (simp add: api_hospitals_def example_store_heap)
  moreover have
    "map id' (filter (\<lambda>h. text_contains (subdistrict h) ''haveli'')
                  (filter (\<lambda>h. equals_ci (district h) ''pune'') example_store) @
                filter (\<lambda>h. \<not> text_contains (subdistrict h) ''haveli'')
                  (filter (\<lambda>h. equals_ci (district h) ''pune'') example_store)) =
       [Some ''1'', Some ''3'', Some ''2'', Some ''4'', Some ''3'']"
    by code_simp
  ultimately have 1:
    "map_response (map id')
       (fst (api_hospitals_district ''pune'' (Some ''haveli'') example_server)) =
     Json [Some ''1'', Some ''3'', Some ''2'', Some ''4'', Some ''3'']"
    by simp
  from district_stable_partition [OF d, of sparse_server "[]"]
  have "fst (api_hospitals_district ''pune'' (Some []) sparse_server) =
          Json (filter (\<lambda>h. text_contains (subdistrict h) [])
                  (filter (\<lambda>h. equals_ci (district h) ''pune'') sparse_store) @
                filter (\<lambda>h. \<not> text_contains (subdistrict h) [])
                  (filter (\<lambda>h. equals_ci (district h) ''pune'') sparse_store))"
    by (simp add: api_hospitals_def sparse_store_heap)
  moreover have
    "map id' (filter (\<lambda>h. text_contains (subdistrict h) [])
                  (filter (\<lambda>h. equals_ci (district h) ''pune'') sparse_store) @
                filter (\<lambda>h. \<not> text_contains (subdistrict h) [])
                  (filter (\<lambda>h. equals_ci (district h) ''pune'') sparse_store)) =
       [Some ''1'', Some ''2'']"
    by code_simp
  ultimately have 2:
    "map_response (map id') (fst (api_hospitals_district ''pune'' (Some []) sparse_server)) =
     Json [Some ''1'', Some ''2'']"
    by simp
  from district_stable_partition [OF d, of sparse_server "''haveli''"]
  have "fst (api_hospitals_district ''pune'' (Some ''haveli'') sparse_server) =
          Json (filter (\<lambda>h. text_contains (subdistrict h) ''haveli'')
                  (filter (\<lambda>h. equals_ci (district h) ''pune'') sparse_store) @
                filter (\<lambda>h. \<not> text_contains (subdistrict h) ''haveli'')
                  (filter (\<lambda>h. equals_ci (district h) ''pune'') sparse_store))"
    by (simp add: api_hospitals_def sparse_store_heap)
  moreover have
    "map id' (filter (\<lambda>h. text_contains (subdistrict h) ''haveli'')
                  (filter (\<lambda>h. equals_ci (district h) ''pune'') sparse_store) @
                filter (\<lambda>h. \<not> text_contains (subdistrict h) ''haveli'')
                  (filter (\<lambda>h. equals_ci (district h) ''pune'') sparse_store)) =
       [Some ''2'', Some ''1'']"
    by code_simp
  ultimately have 3:
    "map_response (map id')
       (fst (api_hospitals_district ''pune'' (Some ''haveli'') sparse_server)) =
     Json [Some ''2'', Some ''1'']"
    by simp
  from d 1 2 3 show ?thesis by (intro conjI)
qed

text \<open>
  C7. For an identifier \<open>i\<close> that is not empty, \<open>byId\<close> answers with a record exactly
  when it is the first record of \<open>listAll\<close> whose identifier is \<open>i\<close>, with not-found
  exactly when no record has the identifier \<open>i\<close>, never with another status, and leaves
  the state as it was.
\<close>

theorem by_id_first_match:
  assumes "i \<noteq> []"
  shows "\<exists>all. fst (api_hospitals st) = Json all \<and>
           (\<forall>h. fst (api_hospitals_id i st) = Json h \<longleftrightarrow>
              (\<exists>n < length all. all ! n = h \<and> id' h = Some i \<and>
                 (\<forall>m < n. id' (all ! m) \<noteq> Some i))) \<and>
           (fst (api_hospitals_id i st) = Status404 \<longleftrightarrow> (\<forall>h \<in> set all. id' h \<noteq> Some i)) \<and>
           fst (api_hospitals_id i st) \<noteq> Status400 \<and>
           fst (api_hospitals_id i st) \<noteq> Status500 \<and>
           snd (api_hospitals_id i st) = st"
proof -
  let ?all = "heap st (hospitals st)"
  let ?f = "find (\<lambda>h. id' h = Some i) ?all"
  have r: "fst (api_hospitals_id i st) = (case ?f of None \<Rightarrow> Status404 | Some h \<Rightarrow> Json h)"
    and s: "snd (api_hospitals_id i st) = st"
    using assms by (simp_all add: api_hospitals_id_def split: option.splits)
  have j: "fst (api_hospitals_id i st) = Json h \<longleftrightarrow>
        (\<exists>n < length ?all. ?all ! n = h \<and> id' h = Some i \<and> (\<forall>m < n. id' (?all ! m) \<noteq> Some i))" for h
  proof -
    have "fst (api_hospitals_id i st) = Json h \<longleftrightarrow> ?f = Some h"
      by (simp add: r split: option.splits)
    also have "\<dots> \<longleftrightarrow> (\<exists>n < length ?all. id' (?all ! n) = Some i \<and> h = ?all ! n \<and>
                  (\<forall>m < n. id' (?all ! m) \<noteq> Some i))"
      by (simp add: find_Some_iff)
    also have "\<dots> \<longleftrightarrow> (\<exists>n < length ?all. ?all ! n = h \<and> id' h = Some i \<and>
                  (\<forall>m < n. id' (?all ! m) \<noteq> Some i))"
      by (rule ex_cong1) auto
    finally show ?thesis .
  qed
  have n: "fst (api_hospitals_id i st) = Status404 \<longleftrightarrow> (\<forall>h \<in> set ?all. id' h \<noteq> Some i)"
  proof -
    have "fst (api_hospitals_id i st) = Status404 \<longleftrightarrow> ?f = None"
      by (simp add: r split: option.splits)
    also have "\<dots> \<longleftrightarrow> (\<forall>h \<in> set ?all. id' h \<noteq> Some i)"
      by (auto simp: find_None_iff)
    finally show ?thesis .
  qed
  have e: "fst (api_hospitals_id i st) \<noteq> Status400" "fst (api_hospitals_id i st) \<noteq> Status500"
    by (simp_all add: r split: option.splits)
  have a: "fst (api_hospitals st) = Json ?all"
    by (simp add: api_hospitals_def)
  from a j n e s show ?thesis by blast
qed

theorem by_id_first_match_witness:
  "''3'' \<noteq> [] \<and>
   fst (api_hospitals_id ''3'' example_server) = Json (example_hospital ''3'' ''City Hospital'' ''Haveli'') \<and>
   ''9'' \<noteq> [] \<and>
   fst (api_hospitals_id ''9'' example_server) = Status404"
proof -
  let ?h = "example_hospital ''3'' ''City Hospital'' ''Haveli''"
  have i3: "''3'' \<noteq> []" and i9: "''9'' \<noteq> []" by simp_all
  from by_id_first_match [OF i3, of example_server]
  have j: "fst (api_hospitals_id ''3'' example_server) = Json ?h \<longleftrightarrow>
      (\<exists>n < length example_store. example_store ! n = ?h \<and> id' ?h = Some ''3'' \<and>
         (\<forall>m < n. id' (example_store ! m) \<noteq> Some ''3''))"
    by (simp add: api_hospitals_def example_store_heap)
  have "2 < length example_store \<and> example_store ! 2 = ?h \<and> id' ?h = Some ''3'' \<and>
         (\<forall>m < 2. id' (example_store ! m) \<noteq> Some ''3'')"
    by (simp add: example_store_def example_hospital_def less_Suc_eq numeral_2_eq_2)
  then have "\<exists>n < length example_store. example_store ! n = ?h \<and> id' ?h = Some ''3'' \<and>
         (\<forall>m < n. id' (example_store ! m) \<noteq> Some ''3'')"
    by blast
  with j have found: "fst (api_hospitals_id ''3'' example_server) = Json ?h"
    by simp
  from by_id_first_match [OF i9, of example_server]
  have "fst (api_hospitals_id ''9'' example_server) = Status404 \<longleftrightarrow>
      (\<forall>h \<in> set example_store. id' h \<noteq> Some ''9'')"
    by (simp add: api_hospitals_def example_store_heap)
  moreover have "\<forall>h \<in> set example_store. id' h \<noteq> Some ''9''"
    by (simp add: example_store_def example_hospital_def)
  ultimately have "fst (api_hospitals_id ''9'' example_server) = Status404"
    by simp
  with found show ?thesis by simp
qed

lemma consistent_by_key:
  fixes k :: "'a \<Rightarrow> nat"
  assumes "consistent lc"
  shows "consistent (\<lambda>a b. if k a < k b then - 1 else if k b < k a then 1 else lc (f a) (f b))"
    (is "consistent ?c")
proof -
  have flip: "(?c a b < 0) = (0 < ?c b a)" for a b
  proof (cases "k a < k b")
    case True
    then show ?thesis by simp
  next
    case False
    show ?thesis
    proof (cases "k b < k a")
      case True
      then show ?thesis by simp
    next
      case nb: False
      with False show ?thesis using consistent_flip [OF assms, of "f a" "f b"] by simp
    qed
  qed
  have le: "?c a b \<le> 0 \<longleftrightarrow> k a < k b \<or> (k a = k b \<and> lc (f a) (f b) \<le> 0)" for a b
    by (cases "k a < k b"; cases "k b < k a") (simp_all add: not_less)
  have trans: "?c a d \<le> 0" if ab: "?c a b \<le> 0" and bd: "?c b d \<le> 0" for a b d
  proof -
    from ab have 1: "k a < k b \<or> (k a = k b \<and> lc (f a) (f b) \<le> 0)" by (simp only: le)
    from bd have 2: "k b < k d \<or> (k b = k d \<and> lc (f b) (f d) \<le> 0)" by (simp only: le)
    have "k a < k d \<or> (k a = k d \<and> lc (f a) (f d) \<le> 0)"
    proof (cases "k a < k d")
      case True
      then show ?thesis by simp
    next
      case False
      with 1 2 have e: "k a = k b" "k b = k d" and l: "lc (f a) (f b) \<le> 0" "lc (f b) (f d) \<le> 0"
        by auto
      from l have "lc (f a) (f d) \<le> 0" by (rule consistent_trans [OF assms])
      with e show ?thesis by simp
    qed
    then show ?thesis by (simp only: le)
  qed
  show ?thesis
    unfolding consistent_def using flip trans by blast
qed

lemma search_rank_key:
  "search_rank lc q locality =
     (\<lambda>a b. if search_key q locality a < search_key q locality b then - 1
            else if search_key q locality b < search_key q locality a then 1
            else lc (text_of (name a)) (text_of (name b)))"
  by (intro ext) (simp add: search_rank_def search_key_def)

lemma consistent_search_rank: "consistent lc \<Longrightarrow> consistent (search_rank lc q locality)"
  unfolding search_rank_key by (rule consistent_by_key)

lemma search_rank_le: "search_rank lc q locality a b \<le> 0 \<longleftrightarrow> ranks_before lc q locality a b"
  by (simp add: search_rank_def ranks_before_def)

lemma search_cmp_named:
  assumes "name a = Some an" and "name b = Some bn"
  shows "search_cmp lc q locality a b = Inr (search_rank lc q locality a b)"
  using assms
  by (simp add: search_cmp_def search_rank_def equals_ci_def in_locality_def text_of_def
      opt_lower_includes_iff Let_def split: option.splits)


lemma candidate_named: "candidate q dist locality h \<Longrightarrow> \<exists>n. name h = Some n"
  by (cases "name h") (simp_all add: candidate_def contains_ci_def)

lemma given_Some_nonempty: "given v = Some s \<Longrightarrow> s \<noteq> []"
  by (cases v) (simp_all add: given_def split: if_splits)

lemma candidate_code:
  assumes "q \<noteq> []"
  shows "(lower_contains (name h) q \<and>
          (case given dist of None \<Rightarrow> True | Some d \<Rightarrow> lower_equals (district h) d) \<and>
          (case given locality of None \<Rightarrow> True | Some l \<Rightarrow> lower_contains (subdistrict h) l)) =
         candidate q dist locality h"
  using assms
  by (cases "given dist"; cases "given locality")
    (simp_all add: candidate_def lower_contains_iff lower_equals_iff given_Some_nonempty)

lemma js_sort_search:
  "js_sort (search_cmp lc q locality) (filter (candidate q dist locality) xs) =
     Inr (sort_by (search_rank lc q locality) (filter (candidate q dist locality) xs))"
proof (rule js_sort_pure, intro ballI)
  fix a b
  assume "a \<in> set (filter (candidate q dist locality) xs)"
    and "b \<in> set (filter (candidate q dist locality) xs)"
  then obtain an bn where "name a = Some an" and "name b = Some bn"
    using candidate_named by fastforce
  then show "search_cmp lc q locality a b = Inr (search_rank lc q locality a b)"
    by (rule search_cmp_named)
qed

lemma api_hospitals_search_result:
  assumes "q \<noteq> []"
  shows "fst (api_hospitals_search lc (Some q) dist locality st) =
           Json (sort_by (search_rank lc q locality)
                   (filter (candidate q dist locality) (heap st (hospitals st))))"
proof -
  let ?xs = "heap st (hospitals st)"
  let ?p = "\<lambda>h. lower_contains (name h) q \<and>
          (case given dist of None \<Rightarrow> True | Some d \<Rightarrow> lower_equals (district h) d) \<and>
          (case given locality of None \<Rightarrow> True | Some l \<Rightarrow> lower_contains (subdistrict h) l)"
  have "fst (api_hospitals_search lc (Some q) dist locality st) =
          (case js_sort (search_cmp lc q locality) (filter ?p ?xs) of
             Inl e \<Rightarrow> Status500 | Inr ys \<Rightarrow> Json ys)"
    using assms
    by (simp add: api_hospitals_search_def array_filter_def new_array_def array_sort_def given_def
        split: option.splits sum.splits)
  also have "filter ?p ?xs = filter (candidate q dist locality) ?xs"
    by (simp only: candidate_code [OF assms])
  finally show ?thesis
    by (simp add: js_sort_search)
qed


lemma sorted_exact_first:
  assumes sorted: "sorted_wrt (ranks_before lc q locality) result"
    and one: "filter (\<lambda>c. equals_ci (name c) q) result = [h]"
  shows "\<exists>rest. result = h # rest"
proof (cases result)
  case Nil
  with one show ?thesis by simp
next
  case (Cons y rest)
  have "equals_ci (name y) q"
  proof (rule ccontr)
    assume ny: "\<not> equals_ci (name y) q"
    from one have "h \<in> set (filter (\<lambda>c. equals_ci (name c) q) result)" by simp
    then have hr: "h \<in> set result" and eh: "equals_ci (name h) q" by simp_all
    from hr Cons ny eh have "h \<in> set rest" by auto
    with sorted Cons have "ranks_before lc q locality y h" by simp
    with ny eh show False by (simp add: ranks_before_def)
  qed
  with one Cons have "y = h" by simp
  with Cons show ?thesis by simp
qed

lemma consistent_code_unit_compare: "consistent code_unit_compare"
proof -
  have "(code_unit_compare a b < 0) = (0 < code_unit_compare b a)" for a b
    by (simp add: code_unit_compare_def not_less_iff_gr_or_eq)
  moreover have "code_unit_compare a b \<le> 0 \<longleftrightarrow> a \<le> b" for a b
    by (simp add: code_unit_compare_def le_less)
  ultimately show ?thesis
    unfolding consistent_def by (metis order_trans)
qed

text \<open>
  C4. For a query \<open>q\<close> that is not empty and a consistent collation, the search returns
  the candidates (a permutation of the records of \<open>listAll\<close> that pass the filters) in
  the three-level order: every record stands before the records after it by exact match
  of the name first, then by the locality if one was given, then by the collation of the
  names. If exactly one candidate's name equals \<open>q\<close> without regard to case, it is first.
\<close>

theorem search_three_level_order:
  assumes "consistent lc" and "q \<noteq> []"
  shows "\<exists>all result.
           fst (api_hospitals st) = Json all \<and>
           fst (api_hospitals_search lc (Some q) dist locality st) = Json result \<and>
           mset result = mset (filter (candidate q dist locality) all) \<and>
           sorted_wrt (ranks_before lc q locality) result \<and>
           (\<forall>h. filter (\<lambda>c. equals_ci (name c) q) (filter (candidate q dist locality) all) = [h]
                 \<longrightarrow> (\<exists>rest. result = h # rest))"
proof -
  let ?all = "heap st (hospitals st)"
  let ?cands = "filter (candidate q dist locality) ?all"
  let ?result = "sort_by (search_rank lc q locality) ?cands"
  have a: "fst (api_hospitals st) = Json ?all"
    by (simp add: api_hospitals_def)
  have r: "fst (api_hospitals_search lc (Some q) dist locality st) = Json ?result"
    by (rule api_hospitals_search_result [OF assms(2)])
  have m: "mset ?result = mset ?cands"
    by (rule mset_sort_by)
  have "sorted_wrt (\<lambda>a b. search_rank lc q locality a b \<le> 0) ?result"
    by (rule sorted_sort_by [OF consistent_search_rank [OF assms(1)]])
  then have s: "sorted_wrt (ranks_before lc q locality) ?result"
    by (simp only: search_rank_le)
  have f: "\<exists>rest. ?result = h # rest"
    if one: "filter (\<lambda>c. equals_ci (name c) q) ?cands = [h]" for h
  proof -
    have "mset (filter (\<lambda>c. equals_ci (name c) q) ?result) =
          mset (filter (\<lambda>c. equals_ci (name c) q) ?cands)"
      by (simp only: mset_filter m)
    with one have "mset (filter (\<lambda>c. equals_ci (name c) q) ?result) = {#h#}"
      by simp
    then have "filter (\<lambda>c. equals_ci (name c) q) ?result = [h]"
      by (simp only: mset_single_iff)
    with s show ?thesis by (rule sorted_exact_first)
  qed
  from a r m s f show ?thesis by blast
qed

theorem search_three_level_order_witness:
  "consistent code_unit_compare \<and> ''city hospital'' \<noteq> [] \<and>
   filter (\<lambda>c. equals_ci (name c) ''city hospital'')
     (filter (candidate ''city hospital'' None None) example_store) =
     [example_hospital ''3'' ''City Hospital'' ''Haveli''] \<and>
   (\<exists>rest. fst (api_hospitals_search code_unit_compare (Some ''city hospital'') None None
                 example_server) =
            Json (example_hospital ''3'' ''City Hospital'' ''Haveli'' # rest))"
proof -
  let ?h = "example_hospital ''3'' ''City Hospital'' ''Haveli''"
  have q: "''city hospital'' \<noteq> []" by simp
  have one: "filter (\<lambda>c. equals_ci (name c) ''city hospital'')
     (filter (candidate ''city hospital'' None None) example_store) = [?h]"
    by code_simp
  from search_three_level_order [OF consistent_code_unit_compare q, of example_server None None]
  obtain result where
    r: "fst (api_hospitals_search code_unit_compare (Some ''city hospital'') None None
              example_server) = Json result"
    and f: "\<forall>h. filter (\<lambda>c. equals_ci (name c) ''city hospital'')
                 (filter (candidate ''city hospital'' None None) example_store) = [h]
               \<longrightarrow> (\<exists>rest. result = h # rest)"
    by (auto simp: api_hospitals_def example_store_heap)
  from f one obtain rest where "result = ?h # rest" by blast
  with r one show ?thesis
    by (simp add: consistent_code_unit_compare)
qed

section \<open>The requests and the store\<close>

lemma frame_refl: "frame st st"
  by (simp add: frame_def)

lemma frame_trans: "frame st st1 \<Longrightarrow> frame st1 st2 \<Longrightarrow> frame st st2"
  by (simp add: frame_def)

lemma frame_array_filter:
  "array_filter p a st = (f, st1) \<Longrightarrow> frame st st1 \<and> f = brk st \<and> brk st1 = Suc (brk st)"
  by (auto simp: array_filter_def new_array_def frame_def)

lemma frame_array_sort:
  "array_sort cmp f st = Inr st' \<Longrightarrow> brk st0 \<le> f \<Longrightarrow> frame st0 st \<Longrightarrow> frame st0 st'"
  by (auto simp: array_sort_def frame_def split: sum.splits)

lemma frame_api_hospitals_district: "frame st (snd (api_hospitals_district d l st))"
  by (auto simp: api_hospitals_district_def frame_refl split: prod.splits option.splits sum.splits
      dest!: frame_array_filter intro: frame_array_sort)

lemma frame_api_hospitals_state: "frame st (snd (api_hospitals_state s st))"
  by (auto simp: api_hospitals_state_def frame_refl split: prod.splits dest!: frame_array_filter)

lemma frame_api_hospitals_locality: "frame st (snd (api_hospitals_locality s st))"
  by (auto simp: api_hospitals_locality_def frame_refl split: prod.splits dest!: frame_array_filter)

lemma frame_api_state_districts: "frame st (snd (api_state_districts s st))"
  by (auto simp: api_state_districts_def frame_refl Let_def split: prod.splits dest!: frame_array_filter)


lemma frame_optional_filter:
  assumes "(case g of None \<Rightarrow> (f, st) | Some x \<Rightarrow> array_filter (p x) f st) = (f', st')"
    and "brk st0 \<le> f" and "frame st0 st"
  shows "frame st0 st' \<and> brk st0 \<le> f'"
proof (cases g)
  case None
  with assms show ?thesis by simp
next
  case (Some x)
  with assms(1) have "array_filter (p x) f st = (f', st')" by simp
  from frame_array_filter [OF this] have "frame st st'" and "f' = brk st" by simp_all
  moreover from assms(3) have "brk st0 \<le> brk st" by (simp add: frame_def)
  ultimately show ?thesis using assms(3) by (auto intro: frame_trans)
qed

lemma frame_api_hospitals_search: "frame st (snd (api_hospitals_search lc q d l st))"
proof (cases "given q")
  case None
  then show ?thesis by (simp add: api_hospitals_search_def frame_refl)
next
  case (Some q')
  obtain f0 st1 where 0: "array_filter (\<lambda>h. lower_contains (name h) q') (hospitals st) st = (f0, st1)"
    by fastforce
  obtain f1 st2 where 1:
    "(case given d of None \<Rightarrow> (f0, st1)
      | Some x \<Rightarrow> array_filter (\<lambda>h. lower_equals (district h) x) f0 st1) = (f1, st2)"
    by fastforce
  obtain f2 st3 where 2:
    "(case given l of None \<Rightarrow> (f1, st2)
      | Some x \<Rightarrow> array_filter (\<lambda>h. lower_contains (subdistrict h) x) f1 st2) = (f2, st3)"
    by fastforce
  from frame_array_filter [OF 0] have a: "frame st st1" "brk st \<le> f0" by simp_all
  from frame_optional_filter [OF 1 a(2) a(1)] have b: "frame st st2" "brk st \<le> f1" by simp_all
  from frame_optional_filter [OF 2 b(2) b(1)] have c: "frame st st3" "brk st \<le> f2" by simp_all
  have "snd (api_hospitals_search lc q d l st) =
          (case array_sort (search_cmp lc q' l) f2 st3 of Inl e \<Rightarrow> st3 | Inr st4 \<Rightarrow> st4)"
    by (simp add: api_hospitals_search_def Some 0 1 2 split: sum.splits)
  with c show ?thesis
    by (auto split: sum.splits intro: frame_array_sort)
qed

lemma frame_handle: "frame st (snd (handle lc rq st))"
  by (cases rq)
    (simp_all add: reply_def frame_api_hospitals_district frame_api_hospitals_state
      frame_api_hospitals_locality frame_api_state_districts frame_api_hospitals_search
      api_hospitals_def api_districts_def api_states_def api_hospitals_id_def frame_refl
      split: option.splits)

lemma frame_store:
  assumes "frame st st'" and "wf_server st"
  shows "heap st' (hospitals st') = heap st (hospitals st)" and "wf_server st'"
  using assms by (simp_all add: frame_def wf_server_def)

lemma wf_example_server: "wf_server example_server"
  by (simp add: wf_server_def example_server_def)

text \<open>
  C9. Every request leaves the store as it was: the variable \<open>hospitals\<close> refers to the
  same array with the same records in the same order, the Sets of districts and states
  are the same, and every array there was before the request is unchanged; the arrays
  that \<open>sort\<close> changes in place are the ones the request has allocated.
\<close>

theorem queries_leave_store:
  assumes "wf_server st"
  shows "hospitals (snd (handle lc rq st)) = hospitals st \<and>
         heap (snd (handle lc rq st)) (hospitals st) = heap st (hospitals st) \<and>
         districts (snd (handle lc rq st)) = districts st \<and>
         states (snd (handle lc rq st)) = states st \<and>
         (\<forall>a < brk st. heap (snd (handle lc rq st)) a = heap st a) \<and>
         wf_server (snd (handle lc rq st)) \<and>
         fst (api_hospitals (snd (handle lc rq st))) = fst (api_hospitals st) \<and>
         fst (api_districts (snd (handle lc rq st))) = fst (api_districts st) \<and>
         fst (api_states (snd (handle lc rq st))) = fst (api_states st)"
proof -
  have f: "frame st (snd (handle lc rq st))" by (rule frame_handle)
  with assms show ?thesis
    by (simp add: frame_def wf_server_def api_hospitals_def api_districts_def api_states_def)
qed

theorem queries_leave_store_witness:
  "wf_server example_server \<and>
   heap (snd (handle code_unit_compare (Search (Some ''city hospital'') None (Some ''haveli''))
                example_server)) 1 = example_store \<and>
   districts (snd (handle code_unit_compare (ByDistrict ''pune'' (Some ''haveli''))
                example_server)) = [''Pune'']"
proof -
  let ?search = "Search (Some ''city hospital'') None (Some ''haveli'')"
  let ?district = "ByDistrict ''pune'' (Some ''haveli'')"
  have h: "hospitals example_server = 1" "heap example_server 1 = example_store"
    "districts example_server = [''Pune'']"
    by (simp_all add: example_server_def)
  from queries_leave_store [OF wf_example_server, of code_unit_compare ?search]
  have "heap (snd (handle code_unit_compare ?search example_server)) (hospitals example_server) =
        heap example_server (hospitals example_server)"
    by blast
  then have 1: "heap (snd (handle code_unit_compare ?search example_server)) 1 = example_store"
    by (simp only: h)
  from queries_leave_store [OF wf_example_server, of code_unit_compare ?district]
  have "districts (snd (handle code_unit_compare ?district example_server)) =
        districts example_server"
    by blast
  then have 2: "districts (snd (handle code_unit_compare ?district example_server)) = [''Pune'']"
    by (simp only: h)
  from 1 2 wf_example_server show ?thesis by blast
qed

lemma fst_api_hospitals_district:
  "fst (api_hospitals_district d l st) =
     (if d = [] then Status400
      else case given l of
             None \<Rightarrow> Json (filter (\<lambda>h. lower_equals (district h) d) (heap st (hospitals st)))
           | Some x \<Rightarrow>
               (case js_sort (\<lambda>a b. Inr (locality_cmp x a b))
                       (filter (\<lambda>h. lower_equals (district h) d) (heap st (hospitals st))) of
                  Inl e \<Rightarrow> Status500 | Inr ys \<Rightarrow> Json ys))"
  by (simp add: api_hospitals_district_def array_filter_def new_array_def array_sort_def
      split: option.splits sum.splits)

lemma fst_api_hospitals_state:
  "fst (api_hospitals_state s st) =
     (if s = [] then Status400
      else Json (filter (\<lambda>h. lower_equals (state h) s) (heap st (hospitals st))))"
  by (simp add: api_hospitals_state_def array_filter_def new_array_def)

lemma fst_api_hospitals_locality:
  "fst (api_hospitals_locality l st) =
     (if l = [] then Status400
      else Json (filter (\<lambda>h. lower_contains (subdistrict h) l) (heap st (hospitals st))))"
  by (simp add: api_hospitals_locality_def array_filter_def new_array_def)

lemma same_store_api_state_districts:
  "heap st' (hospitals st') = heap st (hospitals st) \<Longrightarrow>
     fst (api_state_districts s st') = fst (api_state_districts s st)"
  by (simp add: api_state_districts_def array_filter_def new_array_def)

lemma fst_api_hospitals_search:
  "fst (api_hospitals_search lc q d l st) =
     (case given q of
        None \<Rightarrow> Status400
      | Some q' \<Rightarrow>
          (case js_sort (search_cmp lc q' l)
                  (filter (\<lambda>h. case given l of None \<Rightarrow> True | Some x \<Rightarrow> lower_contains (subdistrict h) x)
                     (filter (\<lambda>h. case given d of None \<Rightarrow> True | Some x \<Rightarrow> lower_equals (district h) x)
                        (filter (\<lambda>h. lower_contains (name h) q') (heap st (hospitals st))))) of
             Inl e \<Rightarrow> Status500 | Inr ys \<Rightarrow> Json ys))"
proof (cases "given q")
  case None
  then show ?thesis by (simp add: api_hospitals_search_def)
next
  case q: (Some q')
  show ?thesis
  proof (cases "given d")
    case d: None
    show ?thesis
    proof (cases "given l")
      case None
      with q d show ?thesis
        by (simp add: api_hospitals_search_def array_filter_def new_array_def array_sort_def
            split: sum.splits)
    next
      case (Some x)
      with q d show ?thesis
        by (simp add: api_hospitals_search_def array_filter_def new_array_def array_sort_def
            split: sum.splits)
    qed
  next
    case d: (Some y)
    show ?thesis
    proof (cases "given l")
      case None
      with q d show ?thesis
        by (simp add: api_hospitals_search_def array_filter_def new_array_def array_sort_def
            split: sum.splits)
    next
      case (Some x)
      with q d show ?thesis
        by (simp add: api_hospitals_search_def array_filter_def new_array_def array_sort_def
            split: sum.splits)
    qed
  qed
qed

lemma handle_same_store:
  assumes "heap st' (hospitals st') = heap st (hospitals st)"
    and "districts st' = districts st" and "states st' = states st"
  shows "fst (handle lc rq st') = fst (handle lc rq st)"
proof (cases rq)
  case ListAll
  with assms show ?thesis by (simp add: reply_def api_hospitals_def)
next
  case (ByDistrict d l)
  with assms show ?thesis by (simp only: handle.simps reply_def fst_conv fst_api_hospitals_district)
next
  case (ByState s)
  with assms show ?thesis by (simp only: handle.simps reply_def fst_conv fst_api_hospitals_state)
next
  case (DistrictsForState s)
  have "fst (api_state_districts s st') = fst (api_state_districts s st)"
    by (rule same_store_api_state_districts [OF assms(1)])
  with DistrictsForState show ?thesis by (simp only: handle.simps reply_def fst_conv)
next
  case (Search q d l)
  with assms show ?thesis by (simp only: handle.simps reply_def fst_conv fst_api_hospitals_search)
next
  case Districts
  with assms show ?thesis by (simp add: reply_def api_districts_def)
next
  case States
  with assms show ?thesis by (simp add: reply_def api_states_def)
next
  case (ById i)
  with assms show ?thesis by (simp add: reply_def api_hospitals_id_def split: option.splits)
next
  case (ByLocality l)
  with assms show ?thesis by (simp only: handle.simps reply_def fst_conv fst_api_hospitals_locality)
qed


lemma consistent_locality_cmp: "consistent (locality_cmp l)"
proof -
  have z: "consistent (\<lambda>a b :: string. 0 :: int)"
    by (simp add: consistent_def)
  have "locality_cmp l =
      (\<lambda>a b. if (if contains_ci (subdistrict a) l then 0 else 1 :: nat) <
                 (if contains_ci (subdistrict b) l then 0 else 1)
              then - 1
              else if (if contains_ci (subdistrict b) l then 0 else 1 :: nat) <
                      (if contains_ci (subdistrict a) l then 0 else 1)
              then 1 else 0)"
    by (intro ext) (simp add: locality_cmp_def opt_lower_includes_iff)
  then show ?thesis
    using consistent_by_key [OF z,
        where k = "\<lambda>h. if contains_ci (subdistrict h) l then 0 else 1"]
    by simp
qed

lemma search_ties:
  assumes "\<forall>b \<in> set ys. \<exists>n. name b = Some n"
  shows "filter (\<lambda>b. search_cmp lc q l a b = Inr 0) ys =
   (case name a of None \<Rightarrow> []
    | Some n \<Rightarrow> filter (\<lambda>b. search_rank lc q l a b = 0) ys)"
proof (cases "name a")
  case None
  then show ?thesis by (simp add: search_cmp_def)
next
  case (Some n)
  have "(search_cmp lc q l a b = Inr 0) = (search_rank lc q l a b = 0)"
    if "b \<in> set ys" for b
  proof -
    from that assms obtain bn where "name b = Some bn" by blast
    from search_cmp_named [OF Some this] show ?thesis by simp
  qed
  then have "filter (\<lambda>b. search_cmp lc q l a b = Inr 0) ys =
             filter (\<lambda>b. search_rank lc q l a b = 0) ys"
    by (intro filter_cong refl)
  with Some show ?thesis by simp
qed

lemma search_ties_stable:
  assumes "consistent lc"
  shows "filter (\<lambda>b. search_cmp lc q l a b = Inr 0)
           (sort_by (search_rank lc q l) (filter (candidate q d l) xs)) =
         filter (\<lambda>b. search_cmp lc q l a b = Inr 0) (filter (candidate q d l) xs)"
proof -
  let ?cands = "filter (candidate q d l) xs"
  have n: "\<forall>b \<in> set ?cands. \<exists>n. name b = Some n"
    using candidate_named by fastforce
  then have n': "\<forall>b \<in> set (sort_by (search_rank lc q l) ?cands). \<exists>n. name b = Some n"
    by (simp only: set_sort_by)
  have "filter (\<lambda>b. search_rank lc q l a b = 0) (sort_by (search_rank lc q l) ?cands) =
        filter (\<lambda>b. search_rank lc q l a b = 0) ?cands"
    by (rule sort_by_stable [OF consistent_search_rank [OF assms]])
  then show ?thesis
    by (simp only: search_ties [OF n] search_ties [OF n'])
qed

text \<open>
  C10. Every request is deterministic: its answer is a function of the store (two states
  with the same records, districts and states give the same answer), so a second call
  answers as the first did; and where the comparator of a sort returns 0 the records keep
  the order of the store, in the district query and in the search, for a consistent
  collation.
\<close>

theorem queries_deterministic:
  assumes "wf_server st" and "consistent lc"
  shows
   "(\<forall>st'. heap st' (hospitals st') = heap st (hospitals st) \<and> districts st' = districts st \<and>
           states st' = states st \<longrightarrow>
           fst (handle lc rq st') = fst (handle lc rq st)) \<and>
    fst (handle lc rq (snd (handle lc rq st))) = fst (handle lc rq st) \<and>
    (\<forall>d l. d \<noteq> [] \<and> l \<noteq> [] \<longrightarrow>
       (\<exists>rs. fst (handle lc (ByDistrict d (Some l)) st) = Json (Records rs) \<and>
          (\<forall>a. filter (\<lambda>b. locality_cmp l a b = 0) rs =
               filter (\<lambda>b. locality_cmp l a b = 0)
                 (filter (\<lambda>h. equals_ci (district h) d) (heap st (hospitals st)))))) \<and>
    (\<forall>q d l. q \<noteq> [] \<longrightarrow>
       (\<exists>rs. fst (handle lc (Search (Some q) d l) st) = Json (Records rs) \<and>
          (\<forall>a. filter (\<lambda>b. search_cmp lc q l a b = Inr 0) rs =
               filter (\<lambda>b. search_cmp lc q l a b = Inr 0)
                 (filter (candidate q d l) (heap st (hospitals st))))))"
proof (intro conjI allI impI)
  fix st' :: server
  assume s: "heap st' (hospitals st') = heap st (hospitals st) \<and> districts st' = districts st \<and>
           states st' = states st"
  show "fst (handle lc rq st') = fst (handle lc rq st)"
  proof (rule handle_same_store)
    from s show "heap st' (hospitals st') = heap st (hospitals st)" by (rule conjunct1)
    from s show "districts st' = districts st" by simp
    from s show "states st' = states st" by simp
  qed
next
  have f: "frame st (snd (handle lc rq st))" by (rule frame_handle)
  show "fst (handle lc rq (snd (handle lc rq st))) = fst (handle lc rq st)"
  proof (rule handle_same_store)
    show "heap (snd (handle lc rq st)) (hospitals (snd (handle lc rq st))) = heap st (hospitals st)"
      by (rule frame_store(1) [OF f assms(1)])
    from f show "districts (snd (handle lc rq st)) = districts st" by (simp add: frame_def)
    from f show "states (snd (handle lc rq st)) = states st" by (simp add: frame_def)
  qed
next
  fix d l :: string
  assume dl: "d \<noteq> [] \<and> l \<noteq> []"
  let ?xs = "filter (\<lambda>h. equals_ci (district h) d) (heap st (hospitals st))"
  have r: "fst (handle lc (ByDistrict d (Some l)) st) = Json (Records (sort_by (locality_cmp l) ?xs))"
    using dl by (simp add: reply_def api_hospitals_district_result given_def)
  have t: "filter (\<lambda>b. locality_cmp l a b = 0) (sort_by (locality_cmp l) ?xs) =
                 filter (\<lambda>b. locality_cmp l a b = 0) ?xs" for a
    by (rule sort_by_stable [OF consistent_locality_cmp])
  show "\<exists>rs. fst (handle lc (ByDistrict d (Some l)) st) = Json (Records rs) \<and>
          (\<forall>a. filter (\<lambda>b. locality_cmp l a b = 0) rs =
               filter (\<lambda>b. locality_cmp l a b = 0) ?xs)"
  proof (intro exI conjI allI)
    show "fst (handle lc (ByDistrict d (Some l)) st) = Json (Records (sort_by (locality_cmp l) ?xs))"
      by (rule r)
    show "filter (\<lambda>b. locality_cmp l a b = 0) (sort_by (locality_cmp l) ?xs) =
                 filter (\<lambda>b. locality_cmp l a b = 0) ?xs" for a
      by (rule t)
  qed
next
  fix q :: string and d l :: "string option"
  assume q: "q \<noteq> []"
  let ?xs = "filter (candidate q d l) (heap st (hospitals st))"
  have r: "fst (handle lc (Search (Some q) d l) st) =
      Json (Records (sort_by (search_rank lc q l) ?xs))"
    using q by (simp add: reply_def api_hospitals_search_result)
  have t: "filter (\<lambda>b. search_cmp lc q l a b = Inr 0) (sort_by (search_rank lc q l) ?xs) =
                 filter (\<lambda>b. search_cmp lc q l a b = Inr 0) ?xs" for a
    by (rule search_ties_stable [OF assms(2)])
  show "\<exists>rs. fst (handle lc (Search (Some q) d l) st) = Json (Records rs) \<and>
          (\<forall>a. filter (\<lambda>b. search_cmp lc q l a b = Inr 0) rs =
               filter (\<lambda>b. search_cmp lc q l a b = Inr 0) ?xs)"
  proof (intro exI conjI allI)
    show "fst (handle lc (Search (Some q) d l) st) =
      Json (Records (sort_by (search_rank lc q l) ?xs))"
      by (rule r)
    show "filter (\<lambda>b. search_cmp lc q l a b = Inr 0) (sort_by (search_rank lc q l) ?xs) =
                 filter (\<lambda>b. search_cmp lc q l a b = Inr 0) ?xs" for a
      by (rule t)
  qed
qed

theorem queries_deterministic_witness:
  "wf_server example_server \<and> consistent code_unit_compare \<and>
   fst (handle code_unit_compare (Search (Some ''city hospital'') None (Some ''haveli''))
         (snd (handle code_unit_compare (Search (Some ''city hospital'') None (Some ''haveli''))
                example_server))) =
   fst (handle code_unit_compare (Search (Some ''city hospital'') None (Some ''haveli''))
         example_server)"
proof (intro conjI)
  show "wf_server example_server" by (rule wf_example_server)
  show "consistent code_unit_compare" by (rule consistent_code_unit_compare)
  show "fst (handle code_unit_compare (Search (Some ''city hospital'') None (Some ''haveli''))
         (snd (handle code_unit_compare (Search (Some ''city hospital'') None (Some ''haveli''))
                example_server))) =
   fst (handle code_unit_compare (Search (Some ''city hospital'') None (Some ''haveli''))
         example_server)"
    by (rule queries_deterministic [OF wf_example_server consistent_code_unit_compare,
          THEN conjunct2, THEN conjunct1])
qed

section \<open>Properties of the ingestion\<close>

lemma on_data_throws: "classify_row row = Inl e \<Longrightarrow> on_data results st row = st"
  by (simp add: on_data_def)

lemma on_data_brk: "brk (on_data r st row) = brk st" "hospitals (on_data r st row) = hospitals st"
  by (simp_all add: on_data_def array_push_def Let_def split: sum.splits option.splits)

lemma foldl_on_data_brk:
  "brk (foldl (on_data r) st rows) = brk st \<and> hospitals (foldl (on_data r) st rows) = hospitals st"
  by (induction rows arbitrary: st) (simp_all add: on_data_brk)

lemma wf_loadHospitalData: "wf_server st \<Longrightarrow> wf_server (loadHospitalData source st)"
  by (cases source)
    (simp_all add: loadHospitalData_def new_array_def on_end_def wf_server_def foldl_on_data_brk)

lemma classify_example_rows:
  "classify_row (example_row ''1'' ''Sunrise City Hospital'' ''Haveli'') =
     Inr (Some (example_hospital ''1'' ''Sunrise City Hospital'' ''Haveli''))"
  "classify_row (example_row ''2'' ''City General Hospital'' ''Pune City'') =
     Inr (Some (example_hospital ''2'' ''City General Hospital'' ''Pune City''))"
  "classify_row (example_row ''3'' ''City Hospital'' ''Haveli'') =
     Inr (Some (example_hospital ''3'' ''City Hospital'' ''Haveli''))"
  "classify_row (example_row ''4'' ''New City Hospital'' ''Pune City'') =
     Inr (Some (example_hospital ''4'' ''New City Hospital'' ''Pune City''))"
  "classify_row (example_row ''3'' ''Second Hospital'' ''Mulshi'') =
     Inr (Some (example_hospital ''3'' ''Second Hospital'' ''Mulshi''))"
  by code_simp+

lemma example_places:
  "district (example_hospital i n sub) = Some ''Pune''"
  "state (example_hospital i n sub) = Some ''Maharashtra''"
  "trim ''Pune'' = ''Pune''"
  "trim ''Maharashtra'' = ''Maharashtra''"
  by (simp_all add: example_hospital_def scenario_hospital_def hospital_of_def trim_def
      isWhiteSpace_def)

lemma step:
  assumes "classify_row row = Inr (Some h)" and "district h = Some ''Pune''"
    and "state h = Some ''Maharashtra''"
  shows "on_data r st row =
           st\<lparr> heap := (heap st)(r := heap st r @ [h]),
               districts := set_add ''Pune'' (districts st),
               states := set_add ''Maharashtra'' (states st) \<rparr>"
  using assms by (simp add: on_data_def array_push_def example_places Let_def)


lemmas example_steps =
  classify_example_rows [THEN step, OF example_places(1) example_places(2)]

lemma example_server_loaded: "loadHospitalData (Some example_rows) init_server = example_server"
  by (simp add: loadHospitalData_def example_rows_def new_array_def init_server_def
      example_steps set_add_def on_end_def example_server_def example_store_def fun_eq_iff)

lemma wf_init_server: "wf_server init_server"
  by (simp add: wf_server_def init_server_def)

lemma classify_no_category_row: "classify_row no_category_row = Inl TypeError"
  by code_simp

text \<open>
  C8. A row whose processing throws is skipped: its handler returns with the state as it
  was, and the store loaded from a sequence of rows is the store loaded from the sequence
  without that row.
\<close>

theorem failing_row_skipped:
  assumes "classify_row row = Inl e"
  shows "on_data results st row = st \<and>
         loadHospitalData (Some (before @ row # after)) st =
         loadHospitalData (Some (before @ after)) st"
  using assms by (simp add: loadHospitalData_def on_data_throws split: prod.splits)

theorem failing_row_skipped_witness:
  "classify_row no_category_row = Inl TypeError \<and>
   loadHospitalData (Some ([scenario_row] @ no_category_row # [scenario_row])) init_server =
   loadHospitalData (Some ([scenario_row] @ [scenario_row])) init_server"
  using failing_row_skipped [OF classify_no_category_row,
      where before = "[scenario_row]" and after = "[scenario_row]" and st = init_server]
  by (simp add: classify_no_category_row)

end
